theory Spec2Isabelle
  imports Main "HOL-Library.Multiset" "HOL-Library.Sublist"
begin

section \<open>Data model of rwcontrol.cpp\<close>

text \<open>
  The payload types of the messages are opaque to the control channel: it only copies
  them. Strings and byte buffers are lists; an image is the list of its pixel words.
\<close>

type_synonym QString = string
type_synonym QByteArray = "nat list"
type_synonym QImage = "nat list"
type_synonym PAudioParams = string
type_synonym PVideoParams = string
type_synonym PPayloadInfo = nat

text \<open>\<^verbatim>\<open>#define QUEUE_FRAME_MAX 10\<close>\<close>

definition QUEUE_FRAME_MAX :: nat where
  "QUEUE_FRAME_MAX = 10"

text \<open>\<^verbatim>\<open>RwControlFrame::Type\<close>\<close>

datatype frame_type = Preview | Output

text \<open>
  The configuration and status classes are declared in rwcontrol.h; their fields are
  the ones rwcontrol.cpp reads and writes.
\<close>

record RwControlConfigDevices =
  audioOutId :: QString
  audioInId :: QString
  videoInId :: QString
  fileNameIn :: QString
  fileDataIn :: QByteArray
  loopFile :: bool
  audioOutVolume :: int
  audioInVolume :: int

record RwControlConfigCodecs =
  useLocalAudioParams :: bool
  useLocalVideoParams :: bool
  useLocalAudioPayloadInfo :: bool
  useLocalVideoPayloadInfo :: bool
  useRemoteAudioPayloadInfo :: bool
  useRemoteVideoPayloadInfo :: bool
  localAudioParams :: "PAudioParams list"
  localVideoParams :: "PVideoParams list"
  localAudioPayloadInfo :: "PPayloadInfo list"
  localVideoPayloadInfo :: "PPayloadInfo list"
  remoteAudioPayloadInfo :: "PPayloadInfo list"
  remoteVideoPayloadInfo :: "PPayloadInfo list"

record RwControlTransmit =
  useAudio :: bool
  useVideo :: bool
  audioIndex :: int
  videoIndex :: int

record RwControlRecord =
  enabled :: bool

record RwControlStatus =
  st_localAudioParams :: "PAudioParams list"
  st_localVideoParams :: "PVideoParams list"
  st_localAudioPayloadInfo :: "PPayloadInfo list"
  st_localVideoPayloadInfo :: "PPayloadInfo list"
  st_canTransmitAudio :: bool
  st_canTransmitVideo :: bool
  stopped :: bool
  finished :: bool
  error :: bool
  errorCode :: int

text \<open>
  \<^verbatim>\<open>RwControlMessage\<close> and its subclasses: the \<^verbatim>\<open>type\<close> tag is the
  constructor, the downcast followed by a field read is the selector.
\<close>

datatype RwControlMessage =
    Start RwControlConfigDevices RwControlConfigCodecs
  | Stop
  | UpdateDevices RwControlConfigDevices
  | UpdateCodecs RwControlConfigCodecs
  | Transmit RwControlTransmit
  | Record RwControlRecord
  | Status (status: RwControlStatus)
  | Frame (ftype: frame_type) (image: QImage)
  | AudioIntensity (intensity_value: int)

text \<open>
  The test \<^verbatim>\<open>msg->type == RwControlMessage::Frame &&
  ((RwControlFrameMessage *)msg)->frame.type == type\<close> of both frame loops.
\<close>

fun is_frame :: "frame_type \<Rightarrow> RwControlMessage \<Rightarrow> bool" where
  "is_frame ty (Frame t i) = (t = ty)"
| "is_frame ty _ = False"

text \<open>\<^verbatim>\<open>msg->type == RwControlMessage::AudioIntensity\<close>\<close>

fun is_intensity :: "RwControlMessage \<Rightarrow> bool" where
  "is_intensity (AudioIntensity v) = True"
| "is_intensity _ = False"

text \<open>\<^verbatim>\<open>msg->type == RwControlMessage::Status\<close>\<close>

fun is_status :: "RwControlMessage \<Rightarrow> bool" where
  "is_status (Status st) = True"
| "is_status _ = False"

text \<open>
  \<^verbatim>\<open>QList::removeAt(int i)\<close>: removes the item at index \<open>i\<close>; an index out of
  range leaves the list as it is.
\<close>

definition removeAt :: "int \<Rightarrow> 'a list \<Rightarrow> 'a list" where
  "removeAt i xs =
     (if 0 \<le> i \<and> i < int (length xs) then take (nat i) xs @ drop (Suc (nat i)) xs else xs)"

section \<open>The static helpers\<close>

text \<open>
  \<^verbatim>\<open>queuedFrameInfo(list, type, &firstPos)\<close>: the loop over the index \<open>n\<close>, with
  the locals \<open>cnt\<close> (the source's \<^verbatim>\<open>count\<close>) and \<open>first\<close> and the
  out-parameter \<open>firstPos\<close>, which the caller has initialised. The result is the
  count and the final \<open>firstPos\<close>.
\<close>

function queuedFrameInfo_loop ::
  "RwControlMessage list \<Rightarrow> frame_type \<Rightarrow> nat \<Rightarrow> nat \<Rightarrow> bool \<Rightarrow> int \<Rightarrow> nat \<times> int" where
  "queuedFrameInfo_loop list ty n cnt first firstPos =
     (if n < length list then
        (if is_frame ty (list ! n)
         then queuedFrameInfo_loop list ty (Suc n) (Suc cnt) False
                (if first then int n else firstPos)
         else queuedFrameInfo_loop list ty (Suc n) cnt first firstPos)
      else (cnt, firstPos))"
  by pat_completeness auto
termination
  by (relation "measure (\<lambda>(list, ty, n, cnt, first, firstPos). length list - n)") auto

declare queuedFrameInfo_loop.simps [simp del]

definition queuedFrameInfo ::
  "RwControlMessage list \<Rightarrow> frame_type \<Rightarrow> int \<Rightarrow> nat \<times> int" where
  "queuedFrameInfo list ty firstPos = queuedFrameInfo_loop list ty 0 0 True firstPos"

text \<open>
  \<^verbatim>\<open>getLatestFrameAndRemoveOthers(&list, type)\<close>. The loop removes each frame of
  the wanted type from the list while it scans it: after \<^verbatim>\<open>removeAt(n); --n\<close> and
  the loop's \<^verbatim>\<open>++n\<close> the index is \<open>n\<close> again. \<open>fmsg\<close> is the message held so far
  (\<open>None\<close> is the null pointer) and \<open>del\<close> lists the messages deleted so far. The
  result is the returned message, the list as the loop leaves it, and the deleted
  messages.
\<close>

function getLatestFrame_loop ::
  "frame_type \<Rightarrow> nat \<Rightarrow> RwControlMessage list \<Rightarrow> RwControlMessage option \<Rightarrow>
   RwControlMessage list \<Rightarrow> RwControlMessage option \<times> RwControlMessage list \<times> RwControlMessage list"
  where
  "getLatestFrame_loop ty n list fmsg del =
     (if n < length list then
        (if is_frame ty (list ! n)
         then getLatestFrame_loop ty n (removeAt (int n) list) (Some (list ! n))
                (case fmsg of None \<Rightarrow> del | Some old \<Rightarrow> del @ [old])
         else getLatestFrame_loop ty (Suc n) list fmsg del)
      else (fmsg, list, del))"
  by pat_completeness auto
termination
  by (relation "measure (\<lambda>(ty, n, list, fmsg, del). length list - n)")
     (auto simp: removeAt_def)

declare getLatestFrame_loop.simps [simp del]

definition getLatestFrameAndRemoveOthers ::
  "RwControlMessage list \<Rightarrow> frame_type \<Rightarrow>
   RwControlMessage option \<times> RwControlMessage list \<times> RwControlMessage list" where
  "getLatestFrameAndRemoveOthers list ty = getLatestFrame_loop ty 0 list None []"

text \<open>\<^verbatim>\<open>getLatestAudioIntensityAndRemoveOthers(&list)\<close>: the same loop on the
  audio intensity messages.\<close>

function getLatestAudioIntensity_loop ::
  "nat \<Rightarrow> RwControlMessage list \<Rightarrow> RwControlMessage option \<Rightarrow>
   RwControlMessage list \<Rightarrow> RwControlMessage option \<times> RwControlMessage list \<times> RwControlMessage list"
  where
  "getLatestAudioIntensity_loop n list amsg del =
     (if n < length list then
        (if is_intensity (list ! n)
         then getLatestAudioIntensity_loop n (removeAt (int n) list) (Some (list ! n))
                (case amsg of None \<Rightarrow> del | Some old \<Rightarrow> del @ [old])
         else getLatestAudioIntensity_loop (Suc n) list amsg del)
      else (amsg, list, del))"
  by pat_completeness auto
termination
  by (relation "measure (\<lambda>(n, list, amsg, del). length list - n)")
     (auto simp: removeAt_def)

declare getLatestAudioIntensity_loop.simps [simp del]

definition getLatestAudioIntensityAndRemoveOthers ::
  "RwControlMessage list \<Rightarrow>
   RwControlMessage option \<times> RwControlMessage list \<times> RwControlMessage list" where
  "getLatestAudioIntensityAndRemoveOthers list = getLatestAudioIntensity_loop 0 list None []"

section \<open>RwControlLocal: the front side\<close>

text \<open>
  The members the message path uses: the inbox \<^verbatim>\<open>in\<close>, the flag
  \<^verbatim>\<open>wake_pending\<close>, and the number of invocations of
  \<^verbatim>\<open>processMessages\<close> queued so far (each \<^verbatim>\<open>QMetaObject::invokeMethod\<close>
  with a queued connection adds one).
\<close>

record RwControlLocal =
  in_local :: "RwControlMessage list"
  wake_pending :: bool
  queued_calls :: nat

text \<open>The signals of RwControlLocal.\<close>

datatype signal =
    previewFrame QImage
  | outputFrame QImage
  | audioIntensityChanged int
  | statusReady RwControlStatus

text \<open>
  \<^verbatim>\<open>RwControlLocal::postMessage\<close>. The mutex is held for the whole body, so the
  body is one step. \<open>firstPos\<close> starts at \<open>-1\<close>.
\<close>

definition Local_postMessage :: "RwControlMessage \<Rightarrow> RwControlLocal \<Rightarrow> RwControlLocal" where
  "Local_postMessage msg s =
     (let in1 =
        (case msg of
           Frame t i \<Rightarrow>
             (let (cnt, firstPos) = queuedFrameInfo (in_local s) t (- 1)
              in if cnt \<ge> QUEUE_FRAME_MAX then removeAt firstPos (in_local s) else in_local s)
         | _ \<Rightarrow> in_local s);
          s1 = s\<lparr>in_local := in1 @ [msg]\<rparr>
      in if \<not> wake_pending s1
         then s1\<lparr>queued_calls := Suc (queued_calls s1), wake_pending := True\<rparr>
         else s1)"

text \<open>
  What a call of \<^verbatim>\<open>processMessages\<close> does besides emptying the inbox: the signals
  it has emitted, in order, the messages it has deleted, in order, and whether the
  object still exists (\<^verbatim>\<open>QPointer self\<close> is not null).

  The slots connected to the signals are application code. The parameter \<open>destroys\<close>
  stands for them: \<open>destroys h\<close> says that the slots, run for the last signal of \<open>h\<close>
  after they have run for the earlier signals of \<open>h\<close> in this call, delete the
  RwControlLocal.
\<close>

record drain =
  emitted :: "signal list"
  deleted :: "RwControlMessage list"
  self :: bool

text \<open>\<^verbatim>\<open>emit sig(...)\<close>, after which the code tests \<^verbatim>\<open>self\<close>.\<close>

definition emit :: "(signal list \<Rightarrow> bool) \<Rightarrow> signal \<Rightarrow> drain \<Rightarrow> drain" where
  "emit destroys sg d =
     d\<lparr>emitted := emitted d @ [sg], self := \<not> destroys (emitted d @ [sg])\<rparr>"

text \<open>
  The last loop of \<^verbatim>\<open>processMessages\<close>: \<^verbatim>\<open>while(!list.isEmpty())\<close> with
  \<^verbatim>\<open>list.takeFirst()\<close>. A status message is deleted before its signal is emitted.
\<close>

fun processMessages_remaining ::
  "(signal list \<Rightarrow> bool) \<Rightarrow> RwControlMessage list \<Rightarrow> drain \<Rightarrow> drain" where
  "processMessages_remaining destroys [] d = d"
| "processMessages_remaining destroys (msg # list) d =
     (if is_status msg then
        (let d1 = emit destroys (statusReady (status msg)) (d\<lparr>deleted := deleted d @ [msg]\<rparr>)
         in if \<not> self d1 then d1\<lparr>deleted := deleted d1 @ list\<rparr>
            else processMessages_remaining destroys list d1)
      else processMessages_remaining destroys list (d\<lparr>deleted := deleted d @ [msg]\<rparr>))"

text \<open>The block "we only care about the latest audio intensity" and what follows it.\<close>

definition processMessages_intensity ::
  "(signal list \<Rightarrow> bool) \<Rightarrow> RwControlMessage list \<Rightarrow> drain \<Rightarrow> drain" where
  "processMessages_intensity destroys list0 d0 =
     (let (amsg, list, del) = getLatestAudioIntensityAndRemoveOthers list0;
          d = d0\<lparr>deleted := deleted d0 @ del\<rparr>
      in case amsg of
           None \<Rightarrow> processMessages_remaining destroys list d
         | Some m \<Rightarrow>
             (let d1 = emit destroys (audioIntensityChanged (intensity_value m))
                         (d\<lparr>deleted := deleted d @ [m]\<rparr>)
              in if \<not> self d1 then d1\<lparr>deleted := deleted d1 @ list\<rparr>
                 else processMessages_remaining destroys list d1))"

text \<open>The block "we only care about the latest output frame" and what follows it.\<close>

definition processMessages_output ::
  "(signal list \<Rightarrow> bool) \<Rightarrow> RwControlMessage list \<Rightarrow> drain \<Rightarrow> drain" where
  "processMessages_output destroys list0 d0 =
     (let (fmsg, list, del) = getLatestFrameAndRemoveOthers list0 Output;
          d = d0\<lparr>deleted := deleted d0 @ del\<rparr>
      in case fmsg of
           None \<Rightarrow> processMessages_intensity destroys list d
         | Some m \<Rightarrow>
             (let d1 = emit destroys (outputFrame (image m)) (d\<lparr>deleted := deleted d @ [m]\<rparr>)
              in if \<not> self d1 then d1\<lparr>deleted := deleted d1 @ list\<rparr>
                 else processMessages_intensity destroys list d1))"

text \<open>The block "we only care about the latest preview frame" and what follows it.\<close>

definition processMessages_preview ::
  "(signal list \<Rightarrow> bool) \<Rightarrow> RwControlMessage list \<Rightarrow> drain \<Rightarrow> drain" where
  "processMessages_preview destroys list0 d0 =
     (let (fmsg, list, del) = getLatestFrameAndRemoveOthers list0 Preview;
          d = d0\<lparr>deleted := deleted d0 @ del\<rparr>
      in case fmsg of
           None \<Rightarrow> processMessages_output destroys list d
         | Some m \<Rightarrow>
             (let d1 = emit destroys (previewFrame (image m)) (d\<lparr>deleted := deleted d @ [m]\<rparr>)
              in if \<not> self d1 then d1\<lparr>deleted := deleted d1 @ list\<rparr>
                 else processMessages_output destroys list d1))"

text \<open>
  \<^verbatim>\<open>RwControlLocal::processMessages\<close>: under the mutex the inbox is moved into
  \<open>list\<close> and cleared; the rest runs on the local copy. The first component is the
  object's state (of no meaning once \<open>self\<close> is false).
\<close>

definition Local_processMessages ::
  "(signal list \<Rightarrow> bool) \<Rightarrow> RwControlLocal \<Rightarrow> RwControlLocal \<times> drain" where
  "Local_processMessages destroys s =
     (let list = in_local s;
          s1 = s\<lparr>wake_pending := False, in_local := []\<rparr>
      in (s1, processMessages_preview destroys list \<lparr>emitted = [], deleted = [], self = True\<rparr>))"

text \<open>The state the constructor leaves.\<close>

definition Local_init :: RwControlLocal where
  "Local_init = \<lparr>in_local = [], wake_pending = False, queued_calls = 0\<rparr>"

section \<open>RwControlRemote: the back side\<close>

text \<open>
  The worker is an RtpWorker, declared in rtpworker.h. The record holds the fields
  that rwcontrol.cpp reads and writes; a call of one of its methods is recorded in the
  list \<open>calls\<close> of the RwControlRemote that makes it.
\<close>

record RtpWorker =
  aout :: QString
  ain :: QString
  vin :: QString
  infile :: QString
  indata :: QByteArray
  w_loopFile :: bool
  w_localAudioParams :: "PAudioParams list"
  w_localVideoParams :: "PVideoParams list"
  w_localAudioPayloadInfo :: "PPayloadInfo list"
  w_localVideoPayloadInfo :: "PPayloadInfo list"
  w_remoteAudioPayloadInfo :: "PPayloadInfo list"
  w_remoteVideoPayloadInfo :: "PPayloadInfo list"
  w_canTransmitAudio :: bool
  w_canTransmitVideo :: bool
  w_error :: int

datatype worker_call =
    W_setOutputVolume int
  | W_setInputVolume int
  | W_start
  | W_stop
  | W_update
  | W_transmitAudio int
  | W_pauseAudio
  | W_transmitVideo int
  | W_pauseVideo
  | W_recordStart
  | W_recordStop

text \<open>
  The members of RwControlRemote: the inbox \<^verbatim>\<open>in\<close>, whether \<^verbatim>\<open>timer\<close> is set
  (a timeout source for \<^verbatim>\<open>cb_processMessages\<close> is attached), \<^verbatim>\<open>blocking\<close>,
  \<^verbatim>\<open>pending_status\<close>, the worker, and the calls made to the worker so far.
\<close>

record RwControlRemote =
  in_remote :: "RwControlMessage list"
  timer :: bool
  blocking :: bool
  pending_status :: bool
  worker :: RtpWorker
  calls :: "worker_call list"

text \<open>
  Modelled from the spec: the constructor of \<^verbatim>\<open>RwControlStatus\<close> is in rwcontrol.h,
  which is not among the sources. A new snapshot has none of \<open>stopped\<close>, \<open>finished\<close>,
  \<open>error\<close> set: at most one of the three is set per snapshot, and each callback
  sets at most its own. \<^verbatim>\<open>statusFromWorker\<close> overwrites the lists and the two
  capability flags; the error code is read only after \<^verbatim>\<open>worker_error\<close> has set
  it, and its initial value (taken as \<open>-1\<close>) enters no statement.
\<close>

definition RwControlStatus_new :: RwControlStatus where
  "RwControlStatus_new =
     \<lparr>st_localAudioParams = [], st_localVideoParams = [],
      st_localAudioPayloadInfo = [], st_localVideoPayloadInfo = [],
      st_canTransmitAudio = False, st_canTransmitVideo = False,
      stopped = False, finished = False, error = False, errorCode = - 1\<rparr>"

definition statusFromWorker :: "RtpWorker \<Rightarrow> RwControlStatus" where
  "statusFromWorker w =
     RwControlStatus_new
       \<lparr>st_localAudioParams := w_localAudioParams w,
        st_localVideoParams := w_localVideoParams w,
        st_localAudioPayloadInfo := w_localAudioPayloadInfo w,
        st_localVideoPayloadInfo := w_localVideoPayloadInfo w,
        st_canTransmitAudio := w_canTransmitAudio w,
        st_canTransmitVideo := w_canTransmitVideo w\<rparr>"

definition call_worker :: "worker_call \<Rightarrow> RwControlRemote \<Rightarrow> RwControlRemote" where
  "call_worker c s = s\<lparr>calls := calls s @ [c]\<rparr>"

definition applyDevicesToWorker ::
  "RwControlConfigDevices \<Rightarrow> RwControlRemote \<Rightarrow> RwControlRemote" where
  "applyDevicesToWorker devices s =
     call_worker (W_setInputVolume (audioInVolume devices))
       (call_worker (W_setOutputVolume (audioOutVolume devices))
          (s\<lparr>worker := (worker s)
               \<lparr>aout := audioOutId devices,
                ain := audioInId devices,
                vin := videoInId devices,
                infile := fileNameIn devices,
                indata := fileDataIn devices,
                w_loopFile := loopFile devices\<rparr>\<rparr>))"

definition applyCodecsToWorker ::
  "RwControlConfigCodecs \<Rightarrow> RwControlRemote \<Rightarrow> RwControlRemote" where
  "applyCodecsToWorker codecs s =
     (let w0 = worker s;
          w1 = (if useLocalAudioParams codecs
                then w0\<lparr>w_localAudioParams := localAudioParams codecs\<rparr> else w0);
          w2 = (if useLocalVideoParams codecs
                then w1\<lparr>w_localVideoParams := localVideoParams codecs\<rparr> else w1);
          w3 = (if useLocalAudioPayloadInfo codecs
                then w2\<lparr>w_localAudioPayloadInfo := localAudioPayloadInfo codecs\<rparr> else w2);
          w4 = (if useLocalVideoPayloadInfo codecs
                then w3\<lparr>w_localVideoPayloadInfo := localVideoPayloadInfo codecs\<rparr> else w3);
          w5 = (if useRemoteAudioPayloadInfo codecs
                then w4\<lparr>w_remoteAudioPayloadInfo := remoteAudioPayloadInfo codecs\<rparr> else w4);
          w6 = (if useRemoteVideoPayloadInfo codecs
                then w5\<lparr>w_remoteVideoPayloadInfo := remoteVideoPayloadInfo codecs\<rparr> else w5)
      in s\<lparr>worker := w6\<rparr>)"

text \<open>
  \<^verbatim>\<open>RwControlRemote::processMessage\<close>: the returned flag and the new state. A
  message of another type (none is ever posted to this side) falls through to
  \<^verbatim>\<open>return true\<close>.
\<close>

fun processMessage :: "RwControlMessage \<Rightarrow> RwControlRemote \<Rightarrow> bool \<times> RwControlRemote" where
  "processMessage (Start devices codecs) s =
     (False,
      call_worker W_start
        ((applyCodecsToWorker codecs (applyDevicesToWorker devices s))\<lparr>pending_status := True\<rparr>))"
| "processMessage Stop s =
     (False, call_worker W_stop (s\<lparr>pending_status := True\<rparr>))"
| "processMessage (UpdateDevices devices) s =
     (False, call_worker W_update (applyDevicesToWorker devices s))"
| "processMessage (UpdateCodecs codecs) s =
     (False, call_worker W_update ((applyCodecsToWorker codecs s)\<lparr>pending_status := True\<rparr>))"
| "processMessage (Transmit transmit) s =
     (let s1 = (if useAudio transmit
                then call_worker (W_transmitAudio (audioIndex transmit)) s
                else call_worker W_pauseAudio s);
          s2 = (if useVideo transmit
                then call_worker (W_transmitVideo (videoIndex transmit)) s1
                else call_worker W_pauseVideo s1)
      in (True, s2))"
| "processMessage (Record record) s =
     (True, if enabled record then call_worker W_recordStart s else call_worker W_recordStop s)"
| "processMessage _ s = (True, s)"

text \<open>
  The loop of \<^verbatim>\<open>RwControlRemote::processMessages\<close>: one message is taken from
  the inbox under the mutex and processed outside it; when \<^verbatim>\<open>processMessage\<close>
  returns false the loop sets \<open>blocking\<close>, cancels a timer that is set, and stops.
\<close>

function processMessages_loop :: "RwControlRemote \<Rightarrow> RwControlRemote" where
  "processMessages_loop s =
     (if in_remote s = [] then s
      else
        (let msg = hd (in_remote s);
             r = processMessage msg (s\<lparr>in_remote := tl (in_remote s)\<rparr>)
         in if \<not> fst r then (snd r)\<lparr>blocking := True, timer := False\<rparr>
            else processMessages_loop (snd r)))"
  by pat_completeness auto
termination
proof (relation "measure (\<lambda>s. length (in_remote s))")
  show "wf (measure (\<lambda>s. length (in_remote s)))"
    by simp
next
  fix s :: RwControlRemote and msg r
  assume ne: "in_remote s \<noteq> []"
    and r: "r = processMessage msg (s\<lparr>in_remote := tl (in_remote s)\<rparr>)"
  have "in_remote (snd (processMessage msg t)) = in_remote t" for t
    by (cases msg)
       (simp_all add: call_worker_def applyDevicesToWorker_def applyCodecsToWorker_def Let_def)
  with ne r show "(snd r, s) \<in> measure (\<lambda>s. length (in_remote s))"
    by simp
qed

declare processMessages_loop.simps [simp del]

definition Remote_processMessages :: "RwControlRemote \<Rightarrow> RwControlRemote" where
  "Remote_processMessages s = processMessages_loop (s\<lparr>timer := False\<rparr>)"

text \<open>\<^verbatim>\<open>RwControlRemote::resumeMessages\<close>\<close>

definition resumeMessages :: "RwControlRemote \<Rightarrow> RwControlRemote" where
  "resumeMessages s =
     (if blocking s then
        (let s1 = s\<lparr>blocking := False\<rparr>
         in if in_remote s1 \<noteq> [] \<and> \<not> timer s1 then s1\<lparr>timer := True\<rparr> else s1)
      else s)"

text \<open>\<^verbatim>\<open>RwControlRemote::postMessage\<close>\<close>

definition Remote_postMessage :: "RwControlMessage \<Rightarrow> RwControlRemote \<Rightarrow> RwControlRemote" where
  "Remote_postMessage msg s =
     (let s1 = s\<lparr>in_remote := in_remote s @ [msg]\<rparr>
      in if \<not> blocking s1 \<and> \<not> timer s1 then s1\<lparr>timer := True\<rparr> else s1)"

text \<open>
  The worker's callbacks. Each works on the RwControlRemote and on the RwControlLocal
  it posts to (\<^verbatim>\<open>local_\<close>).
\<close>

definition worker_started ::
  "RwControlRemote \<times> RwControlLocal \<Rightarrow> RwControlRemote \<times> RwControlLocal" where
  "worker_started = (\<lambda>(s, l).
     (let s1 = s\<lparr>pending_status := False\<rparr>;
          msg = Status (statusFromWorker (worker s1));
          l1 = Local_postMessage msg l
      in (resumeMessages s1, l1)))"

definition worker_updated ::
  "RwControlRemote \<times> RwControlLocal \<Rightarrow> RwControlRemote \<times> RwControlLocal" where
  "worker_updated = (\<lambda>(s, l).
     (if pending_status s then
        (let s1 = s\<lparr>pending_status := False\<rparr>;
             msg = Status (statusFromWorker (worker s1));
             l1 = Local_postMessage msg l
         in (resumeMessages s1, l1))
      else (resumeMessages s, l)))"

definition worker_stopped ::
  "RwControlRemote \<times> RwControlLocal \<Rightarrow> RwControlRemote \<times> RwControlLocal" where
  "worker_stopped = (\<lambda>(s, l).
     (let s1 = s\<lparr>pending_status := False\<rparr>;
          msg = Status ((statusFromWorker (worker s1))\<lparr>stopped := True\<rparr>)
      in (s1, Local_postMessage msg l)))"

definition worker_finished ::
  "RwControlRemote \<times> RwControlLocal \<Rightarrow> RwControlRemote \<times> RwControlLocal" where
  "worker_finished = (\<lambda>(s, l).
     (let msg = Status ((statusFromWorker (worker s))\<lparr>finished := True\<rparr>)
      in (s, Local_postMessage msg l)))"

definition worker_error ::
  "RwControlRemote \<times> RwControlLocal \<Rightarrow> RwControlRemote \<times> RwControlLocal" where
  "worker_error = (\<lambda>(s, l).
     (let msg = Status ((statusFromWorker (worker s))
                  \<lparr>error := True, errorCode := w_error (worker s)\<rparr>)
      in (s, Local_postMessage msg l)))"

text \<open>The state the constructor leaves, for a new worker \<open>w\<close>.\<close>

definition Remote_init :: "RtpWorker \<Rightarrow> RwControlRemote" where
  "Remote_init w =
     \<lparr>in_remote = [], timer = False, blocking = False, pending_status = False,
      worker = w, calls = []\<rparr>"

text \<open>
  What can happen to the pair of the two objects, one event at a time: a call of the
  front side's API posts a command to the back side; the timeout source fires and
  runs \<^verbatim>\<open>processMessages\<close> (only when \<open>timer\<close> is set); the worker changes its
  own fields while it runs; the worker calls one of its five completion callbacks.
\<close>

datatype event =
    Call RwControlMessage
  | Wake
  | WorkerRuns "RtpWorker \<Rightarrow> RtpWorker"
  | Started
  | Updated
  | Stopped
  | Finished
  | Error

fun step :: "event \<Rightarrow> RwControlRemote \<times> RwControlLocal \<Rightarrow> RwControlRemote \<times> RwControlLocal" where
  "step (Call msg) (s, l) = (Remote_postMessage msg s, l)"
| "step Wake (s, l) = (if timer s then (Remote_processMessages s, l) else (s, l))"
| "step (WorkerRuns f) (s, l) = (s\<lparr>worker := f (worker s)\<rparr>, l)"
| "step Started (s, l) = worker_started (s, l)"
| "step Updated (s, l) = worker_updated (s, l)"
| "step Stopped (s, l) = worker_stopped (s, l)"
| "step Finished (s, l) = worker_finished (s, l)"
| "step Error (s, l) = worker_error (s, l)"

text \<open>The events of a list, in order.\<close>

definition run :: "event list \<Rightarrow> RwControlRemote \<times> RwControlLocal \<Rightarrow> RwControlRemote \<times> RwControlLocal" where
  "run evs c = fold step evs c"

section \<open>Notions used in the statements\<close>

text \<open>
  The last message of a batch that satisfies \<open>P\<close>, if there is one: "the last
  occurrence" of a kind.
\<close>

definition latest :: "('a \<Rightarrow> bool) \<Rightarrow> 'a list \<Rightarrow> 'a option" where
  "latest P batch = (if filter P batch = [] then None else Some (last (filter P batch)))"

text \<open>The status signals of a batch, one for each status message, in the order of arrival.\<close>

definition status_signals :: "RwControlMessage list \<Rightarrow> signal list" where
  "status_signals batch = map (\<lambda>m. statusReady (status m)) (filter is_status batch)"

text \<open>
  The fixed order of delivery for a batch: the latest preview frame if there is one,
  then the latest output frame if there is one, then the latest audio intensity if
  there is one, then every status in the order of arrival.
\<close>

definition delivery_order :: "RwControlMessage list \<Rightarrow> signal list" where
  "delivery_order batch =
     (case latest (is_frame Preview) batch of None \<Rightarrow> [] | Some m \<Rightarrow> [previewFrame (image m)]) @
     (case latest (is_frame Output) batch of None \<Rightarrow> [] | Some m \<Rightarrow> [outputFrame (image m)]) @
     (case latest is_intensity batch of None \<Rightarrow> []
      | Some m \<Rightarrow> [audioIntensityChanged (intensity_value m)]) @
     status_signals batch"

text \<open>
  Delivering the signals \<open>cs\<close> one after the other after the signals \<open>h\<close>, and
  stopping after the first one whose slots destroy the receiver: the signals
  delivered, and whether the receiver is still there.
\<close>

fun deliver :: "(signal list \<Rightarrow> bool) \<Rightarrow> signal list \<Rightarrow> signal list \<Rightarrow> signal list \<times> bool" where
  "deliver destroys h [] = (h, True)"
| "deliver destroys h (c # cs) =
     (if destroys (h @ [c]) then (h @ [c], False) else deliver destroys (h @ [c]) cs)"

text \<open>A list without the first (oldest) of its elements that satisfy \<open>P\<close>.\<close>

fun remove_first :: "('a \<Rightarrow> bool) \<Rightarrow> 'a list \<Rightarrow> 'a list" where
  "remove_first P [] = []"
| "remove_first P (x # xs) = (if P x then xs else x # remove_first P xs)"

text \<open>
  The commands after which \<^verbatim>\<open>processMessage\<close> returns false: each of them ends
  with a call of the worker's \<^verbatim>\<open>start\<close>, \<^verbatim>\<open>stop\<close> or \<^verbatim>\<open>update\<close>.
\<close>

fun blocks :: "RwControlMessage \<Rightarrow> bool" where
  "blocks (Start devices codecs) = True"
| "blocks Stop = True"
| "blocks (UpdateDevices devices) = True"
| "blocks (UpdateCodecs codecs) = True"
| "blocks _ = False"

text \<open>The commands that set \<^verbatim>\<open>pending_status\<close>.\<close>

fun marks_pending :: "RwControlMessage \<Rightarrow> bool" where
  "marks_pending (Start devices codecs) = True"
| "marks_pending Stop = True"
| "marks_pending (UpdateCodecs codecs) = True"
| "marks_pending _ = False"


section \<open>Concrete inputs\<close>

definition example_batch :: "RwControlMessage list" where
  "example_batch =
     [Status RwControlStatus_new, Frame Preview [1], AudioIntensity 3, Frame Output [2],
      Frame Preview [4], AudioIntensity 7, Status (RwControlStatus_new\<lparr>stopped := True\<rparr>)]"

definition example_local :: RwControlLocal where
  "example_local = \<lparr>in_local = example_batch, wake_pending = True, queued_calls = 1\<rparr>"

text \<open>
  A front side whose inbox holds ten preview frames, with an output frame and a status
  among them.
\<close>

definition example_full :: RwControlLocal where
  "example_full =
     \<lparr>in_local =
        [Frame Output [100], Frame Preview [0], Frame Preview [1], Frame Preview [2],
         Status RwControlStatus_new, Frame Preview [3], Frame Preview [4], Frame Preview [5],
         Frame Preview [6], Frame Preview [7], Frame Preview [8], Frame Preview [9]],
      wake_pending = True, queued_calls = 1\<rparr>"

text \<open>A worker, a device configuration and a codec configuration.\<close>

definition example_worker :: RtpWorker where
  "example_worker =
     \<lparr>aout = ''out0'', ain = ''in0'', vin = ''cam0'', infile = [], indata = [],
      w_loopFile = False,
      w_localAudioParams = [], w_localVideoParams = [],
      w_localAudioPayloadInfo = [], w_localVideoPayloadInfo = [],
      w_remoteAudioPayloadInfo = [], w_remoteVideoPayloadInfo = [],
      w_canTransmitAudio = False, w_canTransmitVideo = False, w_error = 0\<rparr>"

definition example_devices :: RwControlConfigDevices where
  "example_devices =
     \<lparr>audioOutId = ''out1'', audioInId = ''in1'', videoInId = ''cam1'', fileNameIn = [],
      fileDataIn = [], loopFile = False, audioOutVolume = 50, audioInVolume = 60\<rparr>"

definition example_codecs :: RwControlConfigCodecs where
  "example_codecs =
     \<lparr>useLocalAudioParams = True, useLocalVideoParams = False,
      useLocalAudioPayloadInfo = False, useLocalVideoPayloadInfo = False,
      useRemoteAudioPayloadInfo = True, useRemoteVideoPayloadInfo = False,
      localAudioParams = [''speex''], localVideoParams = [],
      localAudioPayloadInfo = [], localVideoPayloadInfo = [],
      remoteAudioPayloadInfo = [97], remoteVideoPayloadInfo = []\<rparr>"

section \<open>The coalescing loops\<close>

lemma getLatestFrame_loop_eq:
  "n \<le> length list \<Longrightarrow> getLatestFrame_loop ty n list fmsg del =
     (let ms = filter (is_frame ty) (drop n list)
      in (if ms = [] then fmsg else Some (last ms),
          take n list @ filter (\<lambda>m. \<not> is_frame ty m) (drop n list),
          if ms = [] then del
          else (case fmsg of None \<Rightarrow> del | Some old \<Rightarrow> del @ [old]) @ butlast ms))"
proof (induction ty n list fmsg del rule: getLatestFrame_loop.induct)
  case (1 ty n list fmsg del)
  show ?case
  proof (cases "n < length list")
    case False
    then show ?thesis by (subst getLatestFrame_loop.simps) simp
  next
    case True
    then have d: "drop n list = list ! n # drop (Suc n) list"
      by (simp add: Cons_nth_drop_Suc)
    show ?thesis
    proof (cases "is_frame ty (list ! n)")
      case yes: True
      have r: "removeAt (int n) list = take n list @ drop (Suc n) list"
        using True by (simp add: removeAt_def)
      have le: "n \<le> length (removeAt (int n) list)"
        using True by (simp add: r)
      have dr: "drop n (removeAt (int n) list) = drop (Suc n) list"
        using True by (simp add: r)
      have tk: "take n (removeAt (int n) list) = take n list"
        using True by (simp add: r)
      show ?thesis
        using True yes "1.IH"(1) [OF True yes le]
        by (subst getLatestFrame_loop.simps) (simp add: d dr tk Let_def split: option.splits)
    next
      case no: False
      have le: "Suc n \<le> length list" using True by simp
      show ?thesis
        using True no "1.IH"(2) [OF True no le]
        by (subst getLatestFrame_loop.simps) (simp add: d Let_def take_Suc_conv_app_nth)
    qed
  qed
qed

lemma getLatestAudioIntensity_loop_eq:
  "n \<le> length list \<Longrightarrow> getLatestAudioIntensity_loop n list amsg del =
     (let ms = filter is_intensity (drop n list)
      in (if ms = [] then amsg else Some (last ms),
          take n list @ filter (\<lambda>m. \<not> is_intensity m) (drop n list),
          if ms = [] then del
          else (case amsg of None \<Rightarrow> del | Some old \<Rightarrow> del @ [old]) @ butlast ms))"
proof (induction n list amsg del rule: getLatestAudioIntensity_loop.induct)
  case (1 n list amsg del)
  show ?case
  proof (cases "n < length list")
    case False
    then show ?thesis by (subst getLatestAudioIntensity_loop.simps) simp
  next
    case True
    then have d: "drop n list = list ! n # drop (Suc n) list"
      by (simp add: Cons_nth_drop_Suc)
    show ?thesis
    proof (cases "is_intensity (list ! n)")
      case yes: True
      have r: "removeAt (int n) list = take n list @ drop (Suc n) list"
        using True by (simp add: removeAt_def)
      have le: "n \<le> length (removeAt (int n) list)"
        using True by (simp add: r)
      have dr: "drop n (removeAt (int n) list) = drop (Suc n) list"
        using True by (simp add: r)
      have tk: "take n (removeAt (int n) list) = take n list"
        using True by (simp add: r)
      show ?thesis
        using True yes "1.IH"(1) [OF True yes le]
        by (subst getLatestAudioIntensity_loop.simps)
           (simp add: d dr tk Let_def split: option.splits)
    next
      case no: False
      have le: "Suc n \<le> length list" using True by simp
      show ?thesis
        using True no "1.IH"(2) [OF True no le]
        by (subst getLatestAudioIntensity_loop.simps)
           (simp add: d Let_def take_Suc_conv_app_nth)
    qed
  qed
qed

lemma getLatestFrame_eq:
  "getLatestFrameAndRemoveOthers batch ty =
     (latest (is_frame ty) batch, filter (\<lambda>m. \<not> is_frame ty m) batch,
      butlast (filter (is_frame ty) batch))"
  unfolding getLatestFrameAndRemoveOthers_def
  by (subst getLatestFrame_loop_eq) (simp_all add: latest_def Let_def)

lemma getLatestAudioIntensity_eq:
  "getLatestAudioIntensityAndRemoveOthers batch =
     (latest is_intensity batch, filter (\<lambda>m. \<not> is_intensity m) batch,
      butlast (filter is_intensity batch))"
  unfolding getLatestAudioIntensityAndRemoveOthers_def
  by (subst getLatestAudioIntensity_loop_eq) (simp_all add: latest_def Let_def)

lemma latest_Some_mset:
  "latest P batch = Some m \<Longrightarrow>
     mset (butlast (filter P batch)) + {#m#} + mset (filter (\<lambda>x. \<not> P x) batch) = mset batch"
proof -
  assume "latest P batch = Some m"
  then have ne: "filter P batch \<noteq> []" and m: "m = last (filter P batch)"
    by (auto simp: latest_def split: if_splits)
  have "mset (butlast (filter P batch)) + {#m#} = mset (butlast (filter P batch) @ [m])"
    by simp
  also have "\<dots> = mset (filter P batch)"
    using ne m by simp
  finally show ?thesis
    by simp
qed

lemma latest_None_mset:
  "latest P batch = None \<Longrightarrow>
     mset (butlast (filter P batch)) + mset (filter (\<lambda>x. \<not> P x) batch) = mset batch"
proof -
  assume "latest P batch = None"
  then have e: "filter P batch = []"
    by (simp add: latest_def split: if_splits)
  then have "filter (\<lambda>x. \<not> P x) batch = batch"
    by (simp add: filter_empty_conv filter_id_conv)
  with e show ?thesis by simp
qed

lemma remaining_deleted:
  "mset (deleted (processMessages_remaining destroys list d)) = mset (deleted d) + mset list"
proof (induction list arbitrary: d)
  case Nil
  show ?case by simp
next
  case (Cons msg list)
  show ?case
  proof (cases "is_status msg")
    case False
    then show ?thesis
      by (simp add: Cons.IH)
  next
    case True
    show ?thesis
    proof (cases "destroys (emitted d @ [statusReady (status msg)])")
      case d: True
      with True show ?thesis
        by (simp add: emit_def Let_def)
    next
      case d: False
      with True show ?thesis
        by (simp add: emit_def Let_def Cons.IH)
    qed
  qed
qed


lemma filter_filter_implies:
  "(\<And>x. P x \<Longrightarrow> Q x) \<Longrightarrow> filter P (filter Q xs) = filter P xs"
  by (induction xs) auto

lemma status_not_intensity: "is_status m \<Longrightarrow> \<not> is_intensity m"
  by (cases m) simp_all

lemma status_not_frame: "is_status m \<Longrightarrow> \<not> is_frame ty m"
  by (cases m) simp_all

lemma intensity_not_frame: "is_intensity m \<Longrightarrow> \<not> is_frame ty m"
  by (cases m) simp_all

lemma output_not_preview: "is_frame Output m \<Longrightarrow> \<not> is_frame Preview m"
  by (cases m) auto

lemma status_signals_without_intensity:
  "status_signals (filter (\<lambda>m. \<not> is_intensity m) list) = status_signals list"
  by (simp add: status_signals_def filter_filter_implies [OF status_not_intensity] del: filter_filter)

lemma status_signals_without_frames:
  "status_signals (filter (\<lambda>m. \<not> is_frame ty m) list) = status_signals list"
  by (simp add: status_signals_def filter_filter_implies [OF status_not_frame] del: filter_filter)

lemma latest_intensity_without_frames:
  "latest is_intensity (filter (\<lambda>m. \<not> is_frame ty m) list) = latest is_intensity list"
  by (simp add: latest_def filter_filter_implies [OF intensity_not_frame] del: filter_filter)

lemma latest_output_without_preview:
  "latest (is_frame Output) (filter (\<lambda>m. \<not> is_frame Preview m) list) =
   latest (is_frame Output) list"
  by (simp add: latest_def filter_filter_implies [OF output_not_preview] del: filter_filter)

lemma remaining_deliver:
  "self d \<Longrightarrow>
   (emitted (processMessages_remaining destroys list d),
    self (processMessages_remaining destroys list d)) =
   deliver destroys (emitted d) (status_signals list)"
proof (induction list arbitrary: d)
  case Nil
  then show ?case by (simp add: status_signals_def)
next
  case (Cons msg list)
  show ?case
  proof (cases "is_status msg")
    case False
    then show ?thesis
      using Cons.IH [of "d\<lparr>deleted := deleted d @ [msg]\<rparr>"] Cons.prems
      by (simp add: status_signals_def)
  next
    case True
    show ?thesis
    proof (cases "destroys (emitted d @ [statusReady (status msg)])")
      case d: True
      with True show ?thesis
        by (simp add: emit_def Let_def status_signals_def)
    next
      case d: False
      let ?d1 = "emit destroys (statusReady (status msg)) (d\<lparr>deleted := deleted d @ [msg]\<rparr>)"
      have "self ?d1" using d by (simp add: emit_def)
      from Cons.IH [OF this] True d show ?thesis
        by (simp add: emit_def Let_def status_signals_def)
    qed
  qed
qed

lemma intensity_deliver:
  "self d \<Longrightarrow>
   (emitted (processMessages_intensity destroys list d),
    self (processMessages_intensity destroys list d)) =
   deliver destroys (emitted d)
     ((case latest is_intensity list of None \<Rightarrow> []
       | Some m \<Rightarrow> [audioIntensityChanged (intensity_value m)]) @ status_signals list)"
proof (cases "latest is_intensity list")
  case None
  assume "self d"
  then have "self (d\<lparr>deleted := deleted d @ butlast (filter is_intensity list)\<rparr>)"
    by simp
  from remaining_deliver [OF this] None show ?thesis
    by (simp add: processMessages_intensity_def getLatestAudioIntensity_eq
          status_signals_without_intensity)
next
  case (Some m)
  assume d: "self d"
  show ?thesis
  proof (cases "destroys (emitted d @ [audioIntensityChanged (intensity_value m)])")
    case True
    with Some show ?thesis
      by (simp add: processMessages_intensity_def getLatestAudioIntensity_eq emit_def Let_def)
  next
    case False
    let ?d1 = "emit destroys (audioIntensityChanged (intensity_value m))
                 (d\<lparr>deleted := deleted d @ butlast (filter is_intensity list) @ [m]\<rparr>)"
    have "self ?d1" using False by (simp add: emit_def)
    from remaining_deliver [OF this] Some False show ?thesis
      by (simp add: processMessages_intensity_def getLatestAudioIntensity_eq emit_def Let_def
            status_signals_without_intensity)
  qed
qed


lemma output_deliver:
  "self d \<Longrightarrow>
   (emitted (processMessages_output destroys list d),
    self (processMessages_output destroys list d)) =
   deliver destroys (emitted d)
     ((case latest (is_frame Output) list of None \<Rightarrow> [] | Some m \<Rightarrow> [outputFrame (image m)]) @
      (case latest is_intensity list of None \<Rightarrow> []
       | Some m \<Rightarrow> [audioIntensityChanged (intensity_value m)]) @ status_signals list)"
proof (cases "latest (is_frame Output) list")
  case None
  assume "self d"
  then have "self (d\<lparr>deleted := deleted d @ butlast (filter (is_frame Output) list)\<rparr>)"
    by simp
  from intensity_deliver [OF this] None show ?thesis
    by (simp add: processMessages_output_def getLatestFrame_eq
          status_signals_without_frames latest_intensity_without_frames)
next
  case (Some m)
  assume d: "self d"
  show ?thesis
  proof (cases "destroys (emitted d @ [outputFrame (image m)])")
    case True
    with Some show ?thesis
      by (simp add: processMessages_output_def getLatestFrame_eq emit_def Let_def)
  next
    case False
    let ?d1 = "emit destroys (outputFrame (image m))
                 (d\<lparr>deleted := deleted d @ butlast (filter (is_frame Output) list) @ [m]\<rparr>)"
    have "self ?d1" using False by (simp add: emit_def)
    from intensity_deliver [OF this] Some False show ?thesis
      by (simp add: processMessages_output_def getLatestFrame_eq emit_def Let_def
            status_signals_without_frames latest_intensity_without_frames)
  qed
qed

lemma preview_deliver:
  "self d \<Longrightarrow>
   (emitted (processMessages_preview destroys list d),
    self (processMessages_preview destroys list d)) =
   deliver destroys (emitted d) (delivery_order list)"
proof (cases "latest (is_frame Preview) list")
  case None
  assume "self d"
  then have "self (d\<lparr>deleted := deleted d @ butlast (filter (is_frame Preview) list)\<rparr>)"
    by simp
  from output_deliver [OF this] None show ?thesis
    by (simp add: processMessages_preview_def getLatestFrame_eq delivery_order_def
          status_signals_without_frames latest_intensity_without_frames
          latest_output_without_preview)
next
  case (Some m)
  assume d: "self d"
  show ?thesis
  proof (cases "destroys (emitted d @ [previewFrame (image m)])")
    case True
    with Some show ?thesis
      by (simp add: processMessages_preview_def getLatestFrame_eq emit_def Let_def
            delivery_order_def)
  next
    case False
    let ?d1 = "emit destroys (previewFrame (image m))
                 (d\<lparr>deleted := deleted d @ butlast (filter (is_frame Preview) list) @ [m]\<rparr>)"
    have "self ?d1" using False by (simp add: emit_def)
    from output_deliver [OF this] Some False show ?thesis
      by (simp add: processMessages_preview_def getLatestFrame_eq emit_def Let_def
            delivery_order_def status_signals_without_frames latest_intensity_without_frames
            latest_output_without_preview)
  qed
qed

lemma Local_processMessages_deliver:
  "(emitted (snd (Local_processMessages destroys s)),
    self (snd (Local_processMessages destroys s))) =
   deliver destroys [] (delivery_order (in_local s))"
  using preview_deliver [of "\<lparr>emitted = [], deleted = [], self = True\<rparr>" destroys "in_local s"]
  by (simp add: Local_processMessages_def)

lemma intensity_deleted:
  "mset (deleted (processMessages_intensity destroys list d)) = mset (deleted d) + mset list"
proof (cases "latest is_intensity list")
  case None
  with latest_None_mset [OF None] show ?thesis
    by (simp add: processMessages_intensity_def getLatestAudioIntensity_eq remaining_deleted
          add.assoc)
next
  case (Some m)
  with latest_Some_mset [OF Some] show ?thesis
    by (simp add: processMessages_intensity_def getLatestAudioIntensity_eq remaining_deleted
          emit_def Let_def add.assoc)
qed

lemma output_deleted:
  "mset (deleted (processMessages_output destroys list d)) = mset (deleted d) + mset list"
proof (cases "latest (is_frame Output) list")
  case None
  with latest_None_mset [OF None] show ?thesis
    by (simp add: processMessages_output_def getLatestFrame_eq intensity_deleted add.assoc)
next
  case (Some m)
  with latest_Some_mset [OF Some] show ?thesis
    by (simp add: processMessages_output_def getLatestFrame_eq intensity_deleted
          emit_def Let_def add.assoc)
qed

lemma preview_deleted:
  "mset (deleted (processMessages_preview destroys list d)) = mset (deleted d) + mset list"
proof (cases "latest (is_frame Preview) list")
  case None
  with latest_None_mset [OF None] show ?thesis
    by (simp add: processMessages_preview_def getLatestFrame_eq output_deleted add.assoc)
next
  case (Some m)
  with latest_Some_mset [OF Some] show ?thesis
    by (simp add: processMessages_preview_def getLatestFrame_eq output_deleted
          emit_def Let_def add.assoc)
qed

lemma Local_processMessages_deleted:
  "mset (deleted (snd (Local_processMessages destroys s))) = mset (in_local s)"
  by (simp add: Local_processMessages_def preview_deleted)

lemma deliver_extends: "\<exists>k. fst (deliver destroys h cs) = h @ take k cs"
proof (induction cs arbitrary: h)
  case Nil
  show ?case by simp
next
  case (Cons c cs)
  show ?case
  proof (cases "destroys (h @ [c])")
    case True
    have "h @ [c] = h @ take (Suc 0) (c # cs)" by simp
    with True show ?thesis by (metis deliver.simps(2) fst_conv)
  next
    case False
    from Cons.IH [of "h @ [c]"] obtain k where
      "fst (deliver destroys (h @ [c]) cs) = (h @ [c]) @ take k cs" ..
    then have "fst (deliver destroys h (c # cs)) = h @ take (Suc k) (c # cs)"
      using False by simp
    then show ?thesis ..
  qed
qed

lemma deliver_never:
  "\<forall>h. \<not> destroys h \<Longrightarrow> deliver destroys h cs = (h @ cs, True)"
  by (induction cs arbitrary: h) simp_all

lemma deliver_alive:
  "snd (deliver destroys h cs) \<Longrightarrow> fst (deliver destroys h cs) = h @ cs"
  by (induction cs arbitrary: h) (auto split: if_splits)

lemma deliver_dead:
  "\<not> snd (deliver destroys h cs) \<Longrightarrow>
     destroys (fst (deliver destroys h cs)) \<and> length h < length (fst (deliver destroys h cs))"
proof (induction cs arbitrary: h)
  case Nil
  then show ?case by simp
next
  case (Cons c cs)
  show ?case
  proof (cases "destroys (h @ [c])")
    case True
    then show ?thesis by simp
  next
    case False
    with Cons.prems have "\<not> snd (deliver destroys (h @ [c]) cs)" by simp
    from Cons.IH [OF this] False show ?thesis by simp
  qed
qed

lemma deliver_no_further:
  "length h < k \<Longrightarrow> k < length (fst (deliver destroys h cs)) \<Longrightarrow>
     \<not> destroys (take k (fst (deliver destroys h cs)))"
proof (induction cs arbitrary: h)
  case Nil
  then show ?case by simp
next
  case (Cons c cs)
  show ?case
  proof (cases "destroys (h @ [c])")
    case True
    with Cons.prems show ?thesis by simp
  next
    case False
    let ?r = "fst (deliver destroys (h @ [c]) cs)"
    have r: "fst (deliver destroys h (c # cs)) = ?r" using False by simp
    obtain j where j: "?r = (h @ [c]) @ take j cs"
      using deliver_extends [of destroys "h @ [c]" cs] ..
    show ?thesis
    proof (cases "k = Suc (length h)")
      case True
      have "take k ?r = h @ [c]"
        by (subst j) (simp add: True)
      with False r show ?thesis by simp
    next
      case ne: False
      with Cons.prems have "length (h @ [c]) < k" by simp
      moreover have "k < length ?r" using Cons.prems(2) r by simp
      ultimately show ?thesis
        using Cons.IH [of "h @ [c]"] r by simp
    qed
  qed
qed

section \<open>Coalescing, the order of delivery, and destruction during a drain\<close>

text \<open>
  C5. For every drained batch, each of the three coalescing calls returns the last
  message of its kind in the batch (or null when the batch has none), deletes the
  earlier messages of that kind, and leaves the other messages in the list in their
  original order. Run one after the other on a batch, as \<^verbatim>\<open>processMessages\<close> runs
  them, they return the last preview frame, the last output frame and the last audio
  intensity of the batch, and leave the messages of no coalesced kind in their order.
\<close>

theorem coalescing_keeps_last_occurrence:
  "getLatestFrameAndRemoveOthers batch ty =
     (latest (is_frame ty) batch,
      filter (\<lambda>m. \<not> is_frame ty m) batch,
      butlast (filter (is_frame ty) batch)) \<and>
   getLatestAudioIntensityAndRemoveOthers batch =
     (latest is_intensity batch,
      filter (\<lambda>m. \<not> is_intensity m) batch,
      butlast (filter is_intensity batch)) \<and>
   (let (pmsg, list1, del1) = getLatestFrameAndRemoveOthers batch Preview;
        (omsg, list2, del2) = getLatestFrameAndRemoveOthers list1 Output;
        (amsg, list3, del3) = getLatestAudioIntensityAndRemoveOthers list2
    in (pmsg, omsg, amsg, list3)) =
     (latest (is_frame Preview) batch, latest (is_frame Output) batch, latest is_intensity batch,
      filter (\<lambda>m. \<not> is_frame Preview m \<and> \<not> is_frame Output m \<and> \<not> is_intensity m) batch)"
proof (intro conjI)
  show "getLatestFrameAndRemoveOthers batch ty =
     (latest (is_frame ty) batch,
      filter (\<lambda>m. \<not> is_frame ty m) batch,
      butlast (filter (is_frame ty) batch))"
    by (rule getLatestFrame_eq)
  show "getLatestAudioIntensityAndRemoveOthers batch =
     (latest is_intensity batch,
      filter (\<lambda>m. \<not> is_intensity m) batch,
      butlast (filter is_intensity batch))"
    by (rule getLatestAudioIntensity_eq)
  have "filter (\<lambda>m. \<not> is_intensity m)
          (filter (\<lambda>m. \<not> is_frame Output m) (filter (\<lambda>m. \<not> is_frame Preview m) batch)) =
        filter (\<lambda>m. \<not> is_frame Preview m \<and> \<not> is_frame Output m \<and> \<not> is_intensity m) batch"
    by (simp add: conj_commute conj_left_commute)
  then show "(let (pmsg, list1, del1) = getLatestFrameAndRemoveOthers batch Preview;
        (omsg, list2, del2) = getLatestFrameAndRemoveOthers list1 Output;
        (amsg, list3, del3) = getLatestAudioIntensityAndRemoveOthers list2
    in (pmsg, omsg, amsg, list3)) =
     (latest (is_frame Preview) batch, latest (is_frame Output) batch, latest is_intensity batch,
      filter (\<lambda>m. \<not> is_frame Preview m \<and> \<not> is_frame Output m \<and> \<not> is_intensity m) batch)"
    by (simp add: getLatestFrame_eq getLatestAudioIntensity_eq latest_output_without_preview
          latest_intensity_without_frames del: filter_filter)
qed

text \<open>
  C7. The signals that one call of \<^verbatim>\<open>RwControlLocal::processMessages\<close> emits are
  an initial part of the fixed order for the drained batch: at most one preview frame,
  then at most one output frame, then at most one audio intensity, then the statuses in
  the order of their arrival. When the object outlives the call, and so when no slot
  destroys it, all of them are emitted.
\<close>

theorem drain_delivery_order:
  "prefix (emitted (snd (Local_processMessages destroys s))) (delivery_order (in_local s)) \<and>
   (self (snd (Local_processMessages destroys s)) \<longrightarrow>
      emitted (snd (Local_processMessages destroys s)) = delivery_order (in_local s)) \<and>
   ((\<forall>h. \<not> destroys h) \<longrightarrow>
      emitted (snd (Local_processMessages destroys s)) = delivery_order (in_local s))"
proof -
  let ?r = "snd (Local_processMessages destroys s)"
  have eq: "(emitted ?r, self ?r) = deliver destroys [] (delivery_order (in_local s))"
    by (rule Local_processMessages_deliver)
  obtain k where "fst (deliver destroys [] (delivery_order (in_local s))) =
      [] @ take k (delivery_order (in_local s))"
    using deliver_extends [of destroys "[]" "delivery_order (in_local s)"] ..
  with eq have "emitted ?r = take k (delivery_order (in_local s))"
    by (metis append_Nil fst_conv)
  then have "prefix (emitted ?r) (delivery_order (in_local s))"
    by (simp add: take_is_prefix)
  moreover have alive: "emitted ?r = delivery_order (in_local s)" if "self ?r"
    using deliver_alive [of destroys "[]" "delivery_order (in_local s)"] eq that
    by (metis append_Nil fst_conv snd_conv)
  moreover have "emitted ?r = delivery_order (in_local s)" if "\<forall>h. \<not> destroys h"
  proof -
    have "self ?r"
      using deliver_never [OF that, of "[]" "delivery_order (in_local s)"] eq by simp
    then show ?thesis by (rule alive)
  qed
  ultimately show ?thesis by blast
qed

theorem drain_delivery_order_witness:
  "self (snd (Local_processMessages (\<lambda>h. False) example_local)) \<and>
   emitted (snd (Local_processMessages (\<lambda>h. False) example_local)) =
     [previewFrame [4], outputFrame [2], audioIntensityChanged 7,
      statusReady RwControlStatus_new, statusReady (RwControlStatus_new\<lparr>stopped := True\<rparr>)]"
proof -
  have o: "delivery_order (in_local example_local) =
     [previewFrame [4], outputFrame [2], audioIntensityChanged 7,
      statusReady RwControlStatus_new, statusReady (RwControlStatus_new\<lparr>stopped := True\<rparr>)]"
    by (simp add: delivery_order_def latest_def status_signals_def example_local_def
          example_batch_def)
  have alive: "self (snd (Local_processMessages (\<lambda>h. False) example_local))"
    using Local_processMessages_deliver [of "\<lambda>h. False" example_local]
    by (simp add: o)
  with drain_delivery_order [of "\<lambda>h. False" example_local] o show ?thesis
    by simp
qed

text \<open>
  C9. When the object is destroyed during a drain, the signal emitted last is the one
  whose slots destroyed it, no signal before it did, so no signal is emitted after the
  destruction, and every message of the drained batch has been deleted.
\<close>

theorem destruction_during_drain:
  "\<not> self (snd (Local_processMessages destroys s)) \<Longrightarrow>
     destroys (emitted (snd (Local_processMessages destroys s))) \<and>
     (\<forall>k. 0 < k \<and> k < length (emitted (snd (Local_processMessages destroys s))) \<longrightarrow>
        \<not> destroys (take k (emitted (snd (Local_processMessages destroys s))))) \<and>
     prefix (emitted (snd (Local_processMessages destroys s))) (delivery_order (in_local s)) \<and>
     mset (deleted (snd (Local_processMessages destroys s))) = mset (in_local s)"
proof -
  let ?r = "snd (Local_processMessages destroys s)"
  let ?o = "delivery_order (in_local s)"
  assume dead: "\<not> self ?r"
  have eq: "(emitted ?r, self ?r) = deliver destroys [] ?o"
    by (rule Local_processMessages_deliver)
  then have e: "emitted ?r = fst (deliver destroys [] ?o)"
    and a: "self ?r = snd (deliver destroys [] ?o)"
    by (metis fst_conv, metis snd_conv)
  from dead a have "\<not> snd (deliver destroys [] ?o)" by simp
  from deliver_dead [OF this] e have 1: "destroys (emitted ?r)" by simp
  have 2: "\<forall>k. 0 < k \<and> k < length (emitted ?r) \<longrightarrow> \<not> destroys (take k (emitted ?r))"
    using deliver_no_further [of "[]" _ destroys ?o] e by simp
  obtain k where "fst (deliver destroys [] ?o) = [] @ take k ?o"
    using deliver_extends [of destroys "[]" ?o] ..
  with e have 3: "prefix (emitted ?r) ?o"
    by (simp add: take_is_prefix)
  have 4: "mset (deleted ?r) = mset (in_local s)"
    by (rule Local_processMessages_deleted)
  from 1 2 3 4 show ?thesis by blast
qed

theorem destruction_during_drain_witness:
  "\<not> self (snd (Local_processMessages (\<lambda>h. h = [previewFrame [4], outputFrame [2]]) example_local)) \<and>
   emitted (snd (Local_processMessages (\<lambda>h. h = [previewFrame [4], outputFrame [2]]) example_local)) =
     [previewFrame [4], outputFrame [2]] \<and>
   mset (deleted (snd (Local_processMessages (\<lambda>h. h = [previewFrame [4], outputFrame [2]]) example_local))) =
     mset example_batch"
proof -
  let ?d = "\<lambda>h. h = [previewFrame [4], outputFrame [2]]"
  have o: "delivery_order (in_local example_local) =
     [previewFrame [4], outputFrame [2], audioIntensityChanged 7,
      statusReady RwControlStatus_new, statusReady (RwControlStatus_new\<lparr>stopped := True\<rparr>)]"
    by (simp add: delivery_order_def latest_def status_signals_def example_local_def
          example_batch_def)
  have dead: "\<not> self (snd (Local_processMessages ?d example_local))"
    using Local_processMessages_deliver [of ?d example_local]
    by (simp add: o)
  have b: "in_local example_local = example_batch"
    by (simp add: example_local_def)
  from destruction_during_drain [OF dead] have
    d: "?d (emitted (snd (Local_processMessages ?d example_local)))"
    and m: "mset (deleted (snd (Local_processMessages ?d example_local))) = mset (in_local example_local)"
    by blast+
  from dead d m b show ?thesis by simp
qed

section \<open>Posting to the front side\<close>

lemma queuedFrameInfo_loop_eq:
  "queuedFrameInfo_loop list ty n cnt first firstPos =
     (cnt + length (filter (is_frame ty) (drop n list)),
      (if first \<and> filter (is_frame ty) (drop n list) \<noteq> []
       then int (n + length (takeWhile (\<lambda>m. \<not> is_frame ty m) (drop n list)))
       else firstPos))"
proof (induction list ty n cnt first firstPos rule: queuedFrameInfo_loop.induct)
  case (1 list ty n cnt first firstPos)
  show ?case
  proof (cases "n < length list")
    case False
    then show ?thesis by (subst queuedFrameInfo_loop.simps) simp
  next
    case True
    then have d: "drop n list = list ! n # drop (Suc n) list"
      by (simp add: Cons_nth_drop_Suc)
    show ?thesis
    proof (cases "is_frame ty (list ! n)")
      case yes: True
      show ?thesis
        using True yes "1.IH"(1) [OF True yes]
        by (subst queuedFrameInfo_loop.simps) (simp add: d)
    next
      case no: False
      show ?thesis
        using True no "1.IH"(2) [OF True no]
        by (subst queuedFrameInfo_loop.simps) (simp add: d)
    qed
  qed
qed

lemma queuedFrameInfo_eq:
  "queuedFrameInfo list ty firstPos =
     (length (filter (is_frame ty) list),
      (if filter (is_frame ty) list \<noteq> []
       then int (length (takeWhile (\<lambda>m. \<not> is_frame ty m) list))
       else firstPos))"
  unfolding queuedFrameInfo_def
  by (subst queuedFrameInfo_loop_eq) simp

lemma removeAt_int:
  "removeAt (int k) xs = (if k < length xs then take k xs @ drop (Suc k) xs else xs)"
  by (simp add: removeAt_def)

lemma removeAt_first:
  "filter P xs \<noteq> [] \<Longrightarrow>
     removeAt (int (length (takeWhile (\<lambda>x. \<not> P x) xs))) xs = remove_first P xs"
proof (induction xs)
  case Nil
  then show ?case by simp
next
  case (Cons x xs)
  show ?case
  proof (cases "P x")
    case True
    then show ?thesis unfolding removeAt_int by simp
  next
    case False
    with Cons.prems have ne: "filter P xs \<noteq> []" by simp
    have lt: "length (takeWhile (\<lambda>x. \<not> P x) xs) < length xs"
    proof (rule ccontr)
      assume "\<not> ?thesis"
      then have "length (takeWhile (\<lambda>x. \<not> P x) xs) = length xs"
        using length_takeWhile_le [of "\<lambda>x. \<not> P x" xs] by simp
      then have "takeWhile (\<lambda>x. \<not> P x) xs = xs"
        by (metis append_eq_conv_conj takeWhile_dropWhile_id take_all_iff le_refl)
      then have "\<forall>x\<in>set xs. \<not> P x"
        by (metis set_takeWhileD)
      with ne show False by (simp add: filter_empty_conv)
    qed
    from Cons.IH [OF ne, unfolded removeAt_int] lt False show ?thesis
      unfolding removeAt_int by simp
  qed
qed

lemma Local_postMessage_in:
  "in_local (Local_postMessage msg s) =
     (case msg of
        Frame t i \<Rightarrow>
          (if QUEUE_FRAME_MAX \<le> length (filter (is_frame t) (in_local s))
           then remove_first (is_frame t) (in_local s) else in_local s)
      | _ \<Rightarrow> in_local s) @ [msg]"
proof (cases msg)
  case (Frame t i)
  show ?thesis
  proof (cases "QUEUE_FRAME_MAX \<le> length (filter (is_frame t) (in_local s))")
    case True
    then have "filter (is_frame t) (in_local s) \<noteq> []"
      by (auto simp: QUEUE_FRAME_MAX_def)
    with True Frame removeAt_first [OF this] show ?thesis
      by (simp add: Local_postMessage_def queuedFrameInfo_eq Let_def)
  next
    case False
    with Frame show ?thesis
      by (simp add: Local_postMessage_def queuedFrameInfo_eq Let_def)
  qed
qed (simp_all add: Local_postMessage_def Let_def)

lemma filter_remove_first_other:
  "(\<And>x. Q x \<Longrightarrow> \<not> P x) \<Longrightarrow> filter Q (remove_first P xs) = filter Q xs"
  by (induction xs) auto

lemma filter_remove_first_same:
  "filter P (remove_first P xs) = tl (filter P xs)"
  by (induction xs) auto

lemma frames_after_post:
  "length (filter (is_frame T) (in_local s)) \<le> QUEUE_FRAME_MAX \<Longrightarrow>
   length (filter (is_frame T) (in_local (Local_postMessage msg s))) \<le> QUEUE_FRAME_MAX"
proof (cases msg)
  case (Frame t i)
  assume le: "length (filter (is_frame T) (in_local s)) \<le> QUEUE_FRAME_MAX"
  show ?thesis
  proof (cases "t = T")
    case True
    with Frame le show ?thesis
      by (auto simp: Local_postMessage_in filter_remove_first_same QUEUE_FRAME_MAX_def)
  next
    case False
    then have "filter (is_frame T) (remove_first (is_frame t) (in_local s)) =
        filter (is_frame T) (in_local s)"
      by (intro filter_remove_first_other) (case_tac x, auto)
    with Frame le False show ?thesis
      by (simp add: Local_postMessage_in)
  qed
qed (simp_all add: Local_postMessage_in)

lemma frames_after_posts:
  "length (filter (is_frame T) (in_local s)) \<le> QUEUE_FRAME_MAX \<Longrightarrow>
   length (filter (is_frame T) (in_local (fold Local_postMessage msgs s))) \<le> QUEUE_FRAME_MAX"
  by (induction msgs arbitrary: s) (simp_all add: frames_after_post)

text \<open>
  C6. A push of a frame of kind \<open>K\<close> into a front inbox that already holds
  \<^verbatim>\<open>QUEUE_FRAME_MAX\<close> (ten) or more frames of kind \<open>K\<close> removes the oldest queued
  frame of kind \<open>K\<close> and then appends the new one: the queued frames of kind
  \<open>K\<close> lose their first and gain the new one, and every other message (the frames
  of the other kind among them) stays, in order. Below the bound the push only
  appends. So a push keeps the number of queued frames of each kind at ten or fewer,
  and an inbox filled by pushes from the empty one never holds more than ten frames of
  one kind.
\<close>

theorem frame_retention_bound:
  "(QUEUE_FRAME_MAX \<le> length (filter (is_frame K) (in_local s)) \<longrightarrow>
      in_local (Local_postMessage (Frame K img) s) =
        remove_first (is_frame K) (in_local s) @ [Frame K img] \<and>
      filter (is_frame K) (in_local (Local_postMessage (Frame K img) s)) =
        tl (filter (is_frame K) (in_local s)) @ [Frame K img] \<and>
      filter (\<lambda>m. \<not> is_frame K m) (in_local (Local_postMessage (Frame K img) s)) =
        filter (\<lambda>m. \<not> is_frame K m) (in_local s)) \<and>
   (length (filter (is_frame K) (in_local s)) < QUEUE_FRAME_MAX \<longrightarrow>
      in_local (Local_postMessage (Frame K img) s) = in_local s @ [Frame K img]) \<and>
   (length (filter (is_frame T) (in_local s)) \<le> QUEUE_FRAME_MAX \<longrightarrow>
      length (filter (is_frame T) (in_local (Local_postMessage msg s))) \<le> QUEUE_FRAME_MAX) \<and>
   length (filter (is_frame T) (in_local (fold Local_postMessage msgs Local_init)))
     \<le> QUEUE_FRAME_MAX"
proof (intro conjI impI)
  assume full: "QUEUE_FRAME_MAX \<le> length (filter (is_frame K) (in_local s))"
  then show in': "in_local (Local_postMessage (Frame K img) s) =
      remove_first (is_frame K) (in_local s) @ [Frame K img]"
    by (simp add: Local_postMessage_in)
  show "filter (is_frame K) (in_local (Local_postMessage (Frame K img) s)) =
      tl (filter (is_frame K) (in_local s)) @ [Frame K img]"
    by (simp add: in' filter_remove_first_same)
  have "filter (\<lambda>m. \<not> is_frame K m) (remove_first (is_frame K) (in_local s)) =
      filter (\<lambda>m. \<not> is_frame K m) (in_local s)"
    by (rule filter_remove_first_other) simp
  then show "filter (\<lambda>m. \<not> is_frame K m) (in_local (Local_postMessage (Frame K img) s)) =
      filter (\<lambda>m. \<not> is_frame K m) (in_local s)"
    by (simp add: in')
next
  assume "length (filter (is_frame K) (in_local s)) < QUEUE_FRAME_MAX"
  then show "in_local (Local_postMessage (Frame K img) s) = in_local s @ [Frame K img]"
    by (simp add: Local_postMessage_in)
next
  assume "length (filter (is_frame T) (in_local s)) \<le> QUEUE_FRAME_MAX"
  then show "length (filter (is_frame T) (in_local (Local_postMessage msg s))) \<le> QUEUE_FRAME_MAX"
    by (rule frames_after_post)
next
  show "length (filter (is_frame T) (in_local (fold Local_postMessage msgs Local_init)))
     \<le> QUEUE_FRAME_MAX"
    by (rule frames_after_posts) (simp add: Local_init_def)
qed

theorem frame_retention_bound_witness:
  "QUEUE_FRAME_MAX \<le> length (filter (is_frame Preview) (in_local example_full)) \<and>
   length (filter (is_frame Output) (in_local example_full)) < QUEUE_FRAME_MAX \<and>
   in_local (Local_postMessage (Frame Preview [10]) example_full) =
     [Frame Output [100], Frame Preview [1], Frame Preview [2],
      Status RwControlStatus_new, Frame Preview [3], Frame Preview [4], Frame Preview [5],
      Frame Preview [6], Frame Preview [7], Frame Preview [8], Frame Preview [9],
      Frame Preview [10]] \<and>
   in_local (Local_postMessage (Frame Output [101]) example_full) =
     in_local example_full @ [Frame Output [101]] \<and>
   length (filter (is_frame Preview)
     (in_local (Local_postMessage (Frame Preview [10]) example_full))) \<le> QUEUE_FRAME_MAX"
proof -
  have full: "QUEUE_FRAME_MAX \<le> length (filter (is_frame Preview) (in_local example_full))"
    by (simp add: example_full_def QUEUE_FRAME_MAX_def)
  have le: "length (filter (is_frame Preview) (in_local example_full)) \<le> QUEUE_FRAME_MAX"
    by (simp add: example_full_def QUEUE_FRAME_MAX_def)
  have few: "length (filter (is_frame Output) (in_local example_full)) < QUEUE_FRAME_MAX"
    by (simp add: example_full_def QUEUE_FRAME_MAX_def)
  have r: "remove_first (is_frame Preview) (in_local example_full) =
     [Frame Output [100], Frame Preview [1], Frame Preview [2],
      Status RwControlStatus_new, Frame Preview [3], Frame Preview [4], Frame Preview [5],
      Frame Preview [6], Frame Preview [7], Frame Preview [8], Frame Preview [9]]"
    by (simp add: example_full_def)
  from frame_retention_bound [of Preview example_full "[10]" Preview "Frame Preview [10]" "[]"]
    full le r
  have 1: "in_local (Local_postMessage (Frame Preview [10]) example_full) =
     [Frame Output [100], Frame Preview [1], Frame Preview [2],
      Status RwControlStatus_new, Frame Preview [3], Frame Preview [4], Frame Preview [5],
      Frame Preview [6], Frame Preview [7], Frame Preview [8], Frame Preview [9],
      Frame Preview [10]]"
    and 2: "length (filter (is_frame Preview)
     (in_local (Local_postMessage (Frame Preview [10]) example_full))) \<le> QUEUE_FRAME_MAX"
    by (simp_all add: QUEUE_FRAME_MAX_def)
  from frame_retention_bound [of Output example_full "[101]" Preview "Frame Preview [10]" "[]"] few
  have 3: "in_local (Local_postMessage (Frame Output [101]) example_full) =
     in_local example_full @ [Frame Output [101]]"
    by simp
  from full few 1 2 3 show ?thesis by blast
qed

lemma remove_first_previews:
  "xs \<noteq> [] \<Longrightarrow> remove_first (is_frame Preview) (map (Frame Preview) xs) = map (Frame Preview) (tl xs)"
  by (cases xs) simp_all

lemma filter_previews: "filter (is_frame Preview) (map (Frame Preview) xs) = map (Frame Preview) xs"
  by (induction xs) simp_all

lemma post_preview:
  "in_local s = map (Frame Preview) xs \<Longrightarrow>
   in_local (Local_postMessage (Frame Preview i) s) =
     map (Frame Preview) ((if QUEUE_FRAME_MAX \<le> length xs then tl xs else xs) @ [i])"
proof (cases "QUEUE_FRAME_MAX \<le> length xs")
  case True
  assume s: "in_local s = map (Frame Preview) xs"
  from True have "xs \<noteq> []" by (auto simp: QUEUE_FRAME_MAX_def)
  with s True show ?thesis
    by (simp add: Local_postMessage_in filter_previews remove_first_previews)
next
  case False
  assume s: "in_local s = map (Frame Preview) xs"
  with False show ?thesis
    by (simp add: Local_postMessage_in filter_previews)
qed

lemma post_previews:
  "in_local s = map (Frame Preview) xs \<Longrightarrow> length xs \<le> QUEUE_FRAME_MAX \<Longrightarrow>
   in_local (fold (\<lambda>i. Local_postMessage (Frame Preview i)) imgs s) =
     map (Frame Preview) (drop (length (xs @ imgs) - QUEUE_FRAME_MAX) (xs @ imgs))"
proof (induction imgs arbitrary: s xs)
  case Nil
  then show ?case by simp
next
  case (Cons i imgs)
  let ?ys = "(if QUEUE_FRAME_MAX \<le> length xs then tl xs else xs) @ [i]"
  have in1: "in_local (Local_postMessage (Frame Preview i) s) = map (Frame Preview) ?ys"
    using Cons.prems(1) by (rule post_preview)
  have len: "length ?ys \<le> QUEUE_FRAME_MAX"
    using Cons.prems(2) by (auto simp: QUEUE_FRAME_MAX_def)
  have "drop (length (?ys @ imgs) - QUEUE_FRAME_MAX) (?ys @ imgs) =
        drop (length (xs @ i # imgs) - QUEUE_FRAME_MAX) (xs @ i # imgs)"
  proof (cases "QUEUE_FRAME_MAX \<le> length xs")
    case True
    with Cons.prems(2) have l: "length xs = QUEUE_FRAME_MAX" by simp
    then obtain x xs' where xs: "xs = x # xs'"
      by (cases xs) (simp_all add: QUEUE_FRAME_MAX_def)
    with l show ?thesis by (simp add: Suc_diff_le)
  next
    case False
    then show ?thesis by simp
  qed
  with Cons.IH [OF in1 len] show ?case by simp
qed

lemma delivery_order_previews:
  "ys \<noteq> [] \<Longrightarrow> delivery_order (map (Frame Preview) ys) = [previewFrame (last ys)]"
proof -
  assume ne: "ys \<noteq> []"
  have 1: "latest (is_frame Preview) (map (Frame Preview) ys) = Some (Frame Preview (last ys))"
    using ne by (simp add: latest_def filter_previews last_map)
  have "filter (is_frame Output) (map (Frame Preview) ys) = []"
    by (induction ys) simp_all
  then have 2: "latest (is_frame Output) (map (Frame Preview) ys) = None"
    by (simp add: latest_def)
  have "filter is_intensity (map (Frame Preview) ys) = []"
    by (induction ys) simp_all
  then have 3: "latest is_intensity (map (Frame Preview) ys) = None"
    by (simp add: latest_def)
  have "filter is_status (map (Frame Preview) ys) = []"
    by (induction ys) simp_all
  then have 4: "status_signals (map (Frame Preview) ys) = []"
    by (simp add: status_signals_def)
  from 1 2 3 4 show ?thesis
    by (simp add: delivery_order_def)
qed

text \<open>
  C4. When fifteen preview frames are posted to an empty front inbox before any
  drain, the inbox holds the last ten of them, and the drain that follows emits
  exactly one signal: \<^verbatim>\<open>previewFrame\<close> with the image of the fifteenth frame.
\<close>

theorem fifteen_previews_one_callback:
  "length imgs = 15 \<Longrightarrow>
     in_local (fold (\<lambda>i. Local_postMessage (Frame Preview i)) imgs Local_init) =
       map (Frame Preview) (drop 5 imgs) \<and>
     emitted (snd (Local_processMessages destroys
       (fold (\<lambda>i. Local_postMessage (Frame Preview i)) imgs Local_init))) =
       [previewFrame (last imgs)]"
proof -
  assume len: "length imgs = 15"
  let ?s = "fold (\<lambda>i. Local_postMessage (Frame Preview i)) imgs Local_init"
  have "in_local Local_init = map (Frame Preview) []"
    by (simp add: Local_init_def)
  from post_previews [OF this, of imgs] len
  have q: "in_local ?s = map (Frame Preview) (drop 5 imgs)"
    by (simp add: QUEUE_FRAME_MAX_def)
  have ne: "drop 5 imgs \<noteq> []" using len by simp
  have l: "last (drop 5 imgs) = last imgs" using len by simp
  have "(emitted (snd (Local_processMessages destroys ?s)),
         self (snd (Local_processMessages destroys ?s))) =
        deliver destroys [] [previewFrame (last imgs)]"
    using Local_processMessages_deliver [of destroys ?s] delivery_order_previews [OF ne]
    by (simp only: q l)
  then have "emitted (snd (Local_processMessages destroys ?s)) = [previewFrame (last imgs)]"
    by (simp split: if_splits)
  with q show ?thesis by simp
qed

theorem fifteen_previews_one_callback_witness:
  "length (map (\<lambda>n. [n]) [1..<16]) = 15 \<and>
   emitted (snd (Local_processMessages (\<lambda>h. False)
     (fold (\<lambda>i. Local_postMessage (Frame Preview i)) (map (\<lambda>n. [n]) [1..<16]) Local_init))) =
     [previewFrame [15]]"
proof -
  have len: "length (map (\<lambda>n. [n]) [1..<16]) = 15" by simp
  have "last (map (\<lambda>n. [n]) [1..<16]) = [15::nat]"
    by (simp add: last_map upt_rec)
  with fifteen_previews_one_callback [OF len, of "\<lambda>h. False"] len show ?thesis
    by simp
qed

section \<open>The drain loop of the back side\<close>

lemma processMessage_in_remote:
  "processMessage msg (s\<lparr>in_remote := q\<rparr>) =
     (fst (processMessage msg s), (snd (processMessage msg s))\<lparr>in_remote := q\<rparr>)"
  by (cases msg)
     (simp_all add: call_worker_def applyDevicesToWorker_def applyCodecsToWorker_def Let_def)

lemma processMessage_fields:
  "in_remote (snd (processMessage msg s)) = in_remote s"
  "timer (snd (processMessage msg s)) = timer s"
  "blocking (snd (processMessage msg s)) = blocking s"
  by (cases msg;
      simp add: call_worker_def applyDevicesToWorker_def applyCodecsToWorker_def Let_def)+

lemma processMessage_blocks: "fst (processMessage msg s) = (\<not> blocks msg)"
  by (cases msg) (simp_all add: Let_def)

lemma processMessage_pending:
  "pending_status (snd (processMessage msg s)) = (pending_status s \<or> marks_pending msg)"
  by (cases msg)
     (simp_all add: call_worker_def applyDevicesToWorker_def applyCodecsToWorker_def Let_def)

lemma loop_empty: "in_remote s = [] \<Longrightarrow> processMessages_loop s = s"
  by (subst processMessages_loop.simps) simp

lemma loop_blocks:
  "in_remote s = msg # rest \<Longrightarrow> blocks msg \<Longrightarrow>
     processMessages_loop s =
       (snd (processMessage msg s))\<lparr>in_remote := rest, blocking := True, timer := False\<rparr>"
  by (subst processMessages_loop.simps)
     (simp add: Let_def processMessage_in_remote processMessage_blocks)

lemma loop_continues:
  "in_remote s = msg # rest \<Longrightarrow> \<not> blocks msg \<Longrightarrow>
     processMessages_loop s = processMessages_loop ((snd (processMessage msg s))\<lparr>in_remote := rest\<rparr>)"
  by (subst processMessages_loop.simps)
     (simp add: Let_def processMessage_in_remote processMessage_blocks)

lemma loop_prefix:
  "\<forall>m\<in>set pre. \<not> blocks m \<Longrightarrow> in_remote s = pre @ rest \<Longrightarrow>
     processMessages_loop s =
       processMessages_loop ((fold (\<lambda>m t. snd (processMessage m t)) pre s)\<lparr>in_remote := rest\<rparr>)"
proof (induction pre arbitrary: s)
  case Nil
  then have "s\<lparr>in_remote := rest\<rparr> = s" by simp
  then show ?case by simp
next
  case (Cons m pre)
  let ?s1 = "(snd (processMessage m s))\<lparr>in_remote := pre @ rest\<rparr>"
  have 1: "processMessages_loop s = processMessages_loop ?s1"
    using Cons.prems by (intro loop_continues) simp_all
  have 2: "processMessages_loop ?s1 =
      processMessages_loop ((fold (\<lambda>m t. snd (processMessage m t)) pre ?s1)\<lparr>in_remote := rest\<rparr>)"
    using Cons.prems by (intro Cons.IH) simp_all
  have 3: "(fold (\<lambda>m t. snd (processMessage m t)) pre (t\<lparr>in_remote := q\<rparr>))\<lparr>in_remote := rest\<rparr> =
      (fold (\<lambda>m t. snd (processMessage m t)) pre t)\<lparr>in_remote := rest\<rparr>" for t q
    by (induction pre arbitrary: t) (simp_all add: processMessage_in_remote)
  from 1 2 3 show ?case by simp
qed

lemma fold_fields:
  "timer (fold (\<lambda>m t. snd (processMessage m t)) pre s) = timer s"
  "blocking (fold (\<lambda>m t. snd (processMessage m t)) pre s) = blocking s"
  by (induction pre arbitrary: s; simp add: processMessage_fields)+

section \<open>Which commands block the drain\<close>

text \<open>
  C1, as the code has it. \<^verbatim>\<open>processMessage\<close> returns false exactly for Start,
  Stop, UpdateDevices and UpdateCodecs. A drain applies the commands at the head of the
  inbox that are none of these (Transmit and Record) one after the other without
  setting \<open>blocking\<close>; when it reaches one of the four it applies it, sets
  \<open>blocking\<close> and leaves the rest of the inbox queued. With none of the four in the
  inbox the drain empties it and \<open>blocking\<close> stays as it was.
\<close>

theorem drain_blocks_on_worker_operations:
  "fst (processMessage msg s) = (\<not> blocks msg) \<and>
   ((\<forall>m\<in>set pre. \<not> blocks m) \<longrightarrow> in_remote s = pre \<longrightarrow>
      Remote_processMessages s =
        (fold (\<lambda>m t. snd (processMessage m t)) pre (s\<lparr>timer := False\<rparr>))\<lparr>in_remote := []\<rparr> \<and>
      blocking (Remote_processMessages s) = blocking s) \<and>
   ((\<forall>m\<in>set pre. \<not> blocks m) \<longrightarrow> blocks msg \<longrightarrow> in_remote s = pre @ msg # rest \<longrightarrow>
      Remote_processMessages s =
        (snd (processMessage msg (fold (\<lambda>m t. snd (processMessage m t)) pre (s\<lparr>timer := False\<rparr>))))
          \<lparr>in_remote := rest, blocking := True, timer := False\<rparr>)"
proof (intro conjI impI)
  show "fst (processMessage msg s) = (\<not> blocks msg)"
    by (rule processMessage_blocks)
next
  assume pre: "\<forall>m\<in>set pre. \<not> blocks m" and s: "in_remote s = pre"
  let ?t = "fold (\<lambda>m t. snd (processMessage m t)) pre (s\<lparr>timer := False\<rparr>)"
  have "in_remote (s\<lparr>timer := False\<rparr>) = pre @ []" using s by simp
  from loop_prefix [OF pre this]
  have "Remote_processMessages s = processMessages_loop (?t\<lparr>in_remote := []\<rparr>)"
    by (simp add: Remote_processMessages_def)
  then show eq: "Remote_processMessages s = ?t\<lparr>in_remote := []\<rparr>"
    by (simp add: loop_empty)
  show "blocking (Remote_processMessages s) = blocking s"
    by (simp add: eq fold_fields)
next
  assume pre: "\<forall>m\<in>set pre. \<not> blocks m" and msg: "blocks msg"
    and s: "in_remote s = pre @ msg # rest"
  let ?t = "fold (\<lambda>m t. snd (processMessage m t)) pre (s\<lparr>timer := False\<rparr>)"
  have "in_remote (s\<lparr>timer := False\<rparr>) = pre @ msg # rest" using s by simp
  from loop_prefix [OF pre this]
  have "Remote_processMessages s = processMessages_loop (?t\<lparr>in_remote := msg # rest\<rparr>)"
    by (simp add: Remote_processMessages_def)
  also have "\<dots> = (snd (processMessage msg (?t\<lparr>in_remote := msg # rest\<rparr>)))
      \<lparr>in_remote := rest, blocking := True, timer := False\<rparr>"
    using msg by (intro loop_blocks) simp_all
  finally show "Remote_processMessages s =
      (snd (processMessage msg ?t))\<lparr>in_remote := rest, blocking := True, timer := False\<rparr>"
    by (simp add: processMessage_in_remote)
qed

theorem drain_blocks_on_worker_operations_witness:
  "blocking (Remote_processMessages
     ((Remote_init example_worker)
        \<lparr>in_remote := [Record \<lparr>enabled = True\<rparr>, UpdateCodecs example_codecs, Stop],
         timer := True\<rparr>)) \<and>
   in_remote (Remote_processMessages
     ((Remote_init example_worker)
        \<lparr>in_remote := [Record \<lparr>enabled = True\<rparr>, UpdateCodecs example_codecs, Stop],
         timer := True\<rparr>)) = [Stop] \<and>
   calls (Remote_processMessages
     ((Remote_init example_worker)
        \<lparr>in_remote := [Record \<lparr>enabled = True\<rparr>, UpdateCodecs example_codecs, Stop],
         timer := True\<rparr>)) = [W_recordStart, W_update] \<and>
   \<not> blocking (Remote_processMessages
     ((Remote_init example_worker)\<lparr>in_remote := [Record \<lparr>enabled = False\<rparr>], timer := True\<rparr>)) \<and>
   calls (Remote_processMessages
     ((Remote_init example_worker)\<lparr>in_remote := [Record \<lparr>enabled = False\<rparr>], timer := True\<rparr>)) =
     [W_recordStop]"
proof -
  let ?s = "(Remote_init example_worker)
        \<lparr>in_remote := [Record \<lparr>enabled = True\<rparr>, UpdateCodecs example_codecs, Stop],
         timer := True\<rparr>"
  let ?u = "(Remote_init example_worker)\<lparr>in_remote := [Record \<lparr>enabled = False\<rparr>], timer := True\<rparr>"
  have pre: "\<forall>m\<in>set [Record \<lparr>enabled = True\<rparr>]. \<not> blocks m" by simp
  have b: "blocks (UpdateCodecs example_codecs)" by simp
  have i: "in_remote ?s = [Record \<lparr>enabled = True\<rparr>] @ UpdateCodecs example_codecs # [Stop]"
    by simp
  from drain_blocks_on_worker_operations
    [of "UpdateCodecs example_codecs" ?s "[Record \<lparr>enabled = True\<rparr>]" "[Stop]"] pre b i
  have 1: "Remote_processMessages ?s =
      (snd (processMessage (UpdateCodecs example_codecs)
         (fold (\<lambda>m t. snd (processMessage m t)) [Record \<lparr>enabled = True\<rparr>] (?s\<lparr>timer := False\<rparr>))))
        \<lparr>in_remote := [Stop], blocking := True, timer := False\<rparr>"
    by blast
  have pre2: "\<forall>m\<in>set [Record \<lparr>enabled = False\<rparr>]. \<not> blocks m" by simp
  have i2: "in_remote ?u = [Record \<lparr>enabled = False\<rparr>]" by simp
  from drain_blocks_on_worker_operations [of Stop ?u "[Record \<lparr>enabled = False\<rparr>]" "[]"] pre2 i2
  have 2: "Remote_processMessages ?u =
      (fold (\<lambda>m t. snd (processMessage m t)) [Record \<lparr>enabled = False\<rparr>] (?u\<lparr>timer := False\<rparr>))
        \<lparr>in_remote := []\<rparr>"
    by blast
  show ?thesis
    unfolding 1 2
    by (simp add: call_worker_def applyCodecsToWorker_def Remote_init_def Let_def)
qed

text \<open>
  C1 as stated fails for UpdateDevices: after \<^verbatim>\<open>updateDevices\<close> and
  \<^verbatim>\<open>setRecord\<close> on a new pair of objects, the drain applies the devices, calls
  the worker's \<^verbatim>\<open>update\<close>, sets \<open>blocking\<close> and stops: the Record command is
  still queued.
\<close>

theorem updateDevices_blocks_counterexample:
  "blocking (fst (run [Call (UpdateDevices example_devices), Call (Record \<lparr>enabled = True\<rparr>), Wake]
      (Remote_init example_worker, Local_init))) \<and>
   in_remote (fst (run [Call (UpdateDevices example_devices), Call (Record \<lparr>enabled = True\<rparr>), Wake]
      (Remote_init example_worker, Local_init))) = [Record \<lparr>enabled = True\<rparr>] \<and>
   calls (fst (run [Call (UpdateDevices example_devices), Call (Record \<lparr>enabled = True\<rparr>), Wake]
      (Remote_init example_worker, Local_init))) =
     [W_setOutputVolume 50, W_setInputVolume 60, W_update]"
proof -
  let ?s = "\<lparr>in_remote = [UpdateDevices example_devices, Record \<lparr>enabled = True\<rparr>],
            timer = False, blocking = False, pending_status = False,
            worker = example_worker, calls = []\<rparr>"
  have r: "run [Call (UpdateDevices example_devices), Call (Record \<lparr>enabled = True\<rparr>), Wake]
      (Remote_init example_worker, Local_init) = (processMessages_loop ?s, Local_init)"
    by (simp add: run_def Remote_postMessage_def Remote_init_def Remote_processMessages_def
          Let_def)
  have l: "processMessages_loop ?s =
      (snd (processMessage (UpdateDevices example_devices) ?s))
        \<lparr>in_remote := [Record \<lparr>enabled = True\<rparr>], blocking := True, timer := False\<rparr>"
    by (rule loop_blocks) simp_all
  show ?thesis
    unfolding r fst_conv l
    by (simp add: call_worker_def applyDevicesToWorker_def example_devices_def)
qed

text \<open>
  C10. A Transmit command makes exactly two calls to the worker, the audio one first:
  \<^verbatim>\<open>transmitAudio(audioIndex)\<close> if \<open>useAudio\<close> is set and \<^verbatim>\<open>pauseAudio()\<close>
  otherwise, then \<^verbatim>\<open>transmitVideo(videoIndex)\<close> if \<open>useVideo\<close> is set and
  \<^verbatim>\<open>pauseVideo()\<close> otherwise. It changes nothing else and returns true.
\<close>

theorem transmit_audio_then_video:
  "processMessage (Transmit transmit) s =
     (True,
      s\<lparr>calls := calls s @
         [if useAudio transmit then W_transmitAudio (audioIndex transmit) else W_pauseAudio,
          if useVideo transmit then W_transmitVideo (videoIndex transmit) else W_pauseVideo]\<rparr>)"
  by (simp add: call_worker_def Let_def)

section \<open>The worker's callbacks\<close>

lemma run_append: "run (evs @ evs') c = run evs' (run evs c)"
  by (simp add: run_def)

lemma Local_postMessage_Status:
  "in_local (Local_postMessage (Status st) l) = in_local l @ [Status st]"
  by (simp add: Local_postMessage_in)

text \<open>
  C2, as the code has it. Called while \<open>blocking\<close> is set, \<^verbatim>\<open>worker_started\<close>
  and \<^verbatim>\<open>worker_updated\<close> clear it and, when the inbox is not empty, leave a
  timer set, so that the drain resumes. \<^verbatim>\<open>worker_stopped\<close>,
  \<^verbatim>\<open>worker_finished\<close> and \<^verbatim>\<open>worker_error\<close> do not call
  \<^verbatim>\<open>resumeMessages\<close>: \<open>blocking\<close> stays set and no timer is added. None of the
  five drops a queued command. Each of the three posts exactly one status to the front
  side, the worker's snapshot with its own flag set (\<open>stopped\<close>, \<open>finished\<close>, or
  \<open>error\<close> with the worker's error code); \<^verbatim>\<open>worker_started\<close> posts the
  snapshot as it is, and \<^verbatim>\<open>worker_updated\<close> posts it when a status is pending.
\<close>

theorem started_and_updated_resume:
  "blocking s \<Longrightarrow>
     \<not> blocking (fst (worker_started (s, l))) \<and>
     timer (fst (worker_started (s, l))) = (timer s \<or> in_remote s \<noteq> []) \<and>
     in_remote (fst (worker_started (s, l))) = in_remote s \<and>
     \<not> blocking (fst (worker_updated (s, l))) \<and>
     timer (fst (worker_updated (s, l))) = (timer s \<or> in_remote s \<noteq> []) \<and>
     in_remote (fst (worker_updated (s, l))) = in_remote s \<and>
     blocking (fst (worker_stopped (s, l))) \<and>
     timer (fst (worker_stopped (s, l))) = timer s \<and>
     in_remote (fst (worker_stopped (s, l))) = in_remote s \<and>
     fst (worker_finished (s, l)) = s \<and>
     fst (worker_error (s, l)) = s \<and>
     in_local (snd (worker_started (s, l))) =
       in_local l @ [Status (statusFromWorker (worker s))] \<and>
     in_local (snd (worker_updated (s, l))) =
       (if pending_status s then in_local l @ [Status (statusFromWorker (worker s))]
        else in_local l) \<and>
     in_local (snd (worker_stopped (s, l))) =
       in_local l @ [Status ((statusFromWorker (worker s))\<lparr>stopped := True\<rparr>)] \<and>
     in_local (snd (worker_finished (s, l))) =
       in_local l @ [Status ((statusFromWorker (worker s))\<lparr>finished := True\<rparr>)] \<and>
     in_local (snd (worker_error (s, l))) =
       in_local l @
       [Status ((statusFromWorker (worker s))\<lparr>error := True, errorCode := w_error (worker s)\<rparr>)]"
proof -
  assume b: "blocking s"
  have rem:
    "\<not> blocking (fst (worker_started (s, l))) \<and>
     timer (fst (worker_started (s, l))) = (timer s \<or> in_remote s \<noteq> []) \<and>
     in_remote (fst (worker_started (s, l))) = in_remote s \<and>
     \<not> blocking (fst (worker_updated (s, l))) \<and>
     timer (fst (worker_updated (s, l))) = (timer s \<or> in_remote s \<noteq> []) \<and>
     in_remote (fst (worker_updated (s, l))) = in_remote s \<and>
     blocking (fst (worker_stopped (s, l))) \<and>
     timer (fst (worker_stopped (s, l))) = timer s \<and>
     in_remote (fst (worker_stopped (s, l))) = in_remote s \<and>
     fst (worker_finished (s, l)) = s \<and>
     fst (worker_error (s, l)) = s"
    using b
    by (auto simp: worker_started_def worker_updated_def worker_stopped_def worker_finished_def
          worker_error_def resumeMessages_def Let_def)
  have 1: "in_local (snd (worker_started (s, l))) =
       in_local l @ [Status (statusFromWorker (worker s))]"
    by (simp add: worker_started_def Let_def Local_postMessage_Status)
  have 2: "in_local (snd (worker_updated (s, l))) =
       (if pending_status s then in_local l @ [Status (statusFromWorker (worker s))]
        else in_local l)"
    by (simp add: worker_updated_def Let_def Local_postMessage_Status)
  have 3: "in_local (snd (worker_stopped (s, l))) =
       in_local l @ [Status ((statusFromWorker (worker s))\<lparr>stopped := True\<rparr>)]"
    by (simp add: worker_stopped_def Let_def Local_postMessage_Status)
  have 4: "in_local (snd (worker_finished (s, l))) =
       in_local l @ [Status ((statusFromWorker (worker s))\<lparr>finished := True\<rparr>)]"
    by (simp add: worker_finished_def Let_def Local_postMessage_Status)
  have 5: "in_local (snd (worker_error (s, l))) =
       in_local l @
       [Status ((statusFromWorker (worker s))\<lparr>error := True, errorCode := w_error (worker s)\<rparr>)]"
    by (simp add: worker_error_def Let_def Local_postMessage_Status)
  from rem 1 2 3 4 5 show ?thesis by blast
qed

theorem started_and_updated_resume_witness:
  "\<not> blocking (fst (worker_started
      ((Remote_init example_worker)\<lparr>in_remote := [Stop], blocking := True\<rparr>, Local_init))) \<and>
   timer (fst (worker_started
      ((Remote_init example_worker)\<lparr>in_remote := [Stop], blocking := True\<rparr>, Local_init))) \<and>
   \<not> blocking (fst (worker_updated
      ((Remote_init example_worker)\<lparr>in_remote := [Stop], blocking := True\<rparr>, Local_init))) \<and>
   timer (fst (worker_updated
      ((Remote_init example_worker)\<lparr>in_remote := [Stop], blocking := True\<rparr>, Local_init))) \<and>
   blocking (fst (worker_stopped
      ((Remote_init example_worker)\<lparr>in_remote := [Stop], blocking := True\<rparr>, Local_init))) \<and>
   in_local (snd (worker_stopped
      ((Remote_init example_worker)\<lparr>in_remote := [Stop], blocking := True\<rparr>, Local_init))) =
     [Status ((statusFromWorker example_worker)\<lparr>stopped := True\<rparr>)] \<and>
   in_local (snd (worker_finished
      ((Remote_init example_worker)\<lparr>in_remote := [Stop], blocking := True\<rparr>, Local_init))) =
     [Status ((statusFromWorker example_worker)\<lparr>finished := True\<rparr>)] \<and>
   in_local (snd (worker_error
      ((Remote_init example_worker)\<lparr>in_remote := [Stop], blocking := True\<rparr>, Local_init))) =
     [Status ((statusFromWorker example_worker)\<lparr>error := True, errorCode := 0\<rparr>)] \<and>
   in_local (snd (worker_updated
      ((Remote_init example_worker)\<lparr>in_remote := [Stop], blocking := True\<rparr>, Local_init))) = []"
proof -
  let ?s = "(Remote_init example_worker)\<lparr>in_remote := [Stop], blocking := True\<rparr>"
  have b: "blocking ?s" by simp
  have q: "in_remote ?s \<noteq> []" by simp
  have w: "worker ?s = example_worker" by (simp add: Remote_init_def)
  have p: "\<not> pending_status ?s" by (simp add: Remote_init_def)
  have l0: "in_local Local_init = []" by (simp add: Local_init_def)
  have e: "w_error example_worker = 0" by (simp add: example_worker_def)
  from started_and_updated_resume [OF b, of Local_init] q w p l0 e show ?thesis
    by simp
qed

text \<open>
  C2 as stated fails for the stopped callback: after \<^verbatim>\<open>stop\<close> and
  \<^verbatim>\<open>setRecord\<close> on a new pair of objects, a drain and the worker's stopped
  callback, \<open>blocking\<close> is still set, no timer is set, and the Record command is
  still queued; the callback has posted its status with \<open>stopped\<close> set.
\<close>

theorem stopped_does_not_resume_counterexample:
  "blocking (fst (run [Call Stop, Call (Record \<lparr>enabled = True\<rparr>), Wake, Stopped]
      (Remote_init example_worker, Local_init))) \<and>
   \<not> timer (fst (run [Call Stop, Call (Record \<lparr>enabled = True\<rparr>), Wake, Stopped]
      (Remote_init example_worker, Local_init))) \<and>
   in_remote (fst (run [Call Stop, Call (Record \<lparr>enabled = True\<rparr>), Wake, Stopped]
      (Remote_init example_worker, Local_init))) = [Record \<lparr>enabled = True\<rparr>] \<and>
   in_local (snd (run [Call Stop, Call (Record \<lparr>enabled = True\<rparr>), Wake, Stopped]
      (Remote_init example_worker, Local_init))) =
     [Status ((statusFromWorker example_worker)\<lparr>stopped := True\<rparr>)]"
proof -
  let ?s = "\<lparr>in_remote = [Stop, Record \<lparr>enabled = True\<rparr>],
            timer = False, blocking = False, pending_status = False,
            worker = example_worker, calls = []\<rparr>"
  have l: "processMessages_loop ?s =
      (snd (processMessage Stop ?s))
        \<lparr>in_remote := [Record \<lparr>enabled = True\<rparr>], blocking := True, timer := False\<rparr>"
    by (rule loop_blocks) simp_all
  have r: "run [Call Stop, Call (Record \<lparr>enabled = True\<rparr>), Wake, Stopped]
      (Remote_init example_worker, Local_init) =
      worker_stopped (processMessages_loop ?s, Local_init)"
    by (simp add: run_def Remote_postMessage_def Remote_init_def Remote_processMessages_def
          Let_def)
  show ?thesis
    unfolding r l
    by (simp add: worker_stopped_def call_worker_def Let_def Local_postMessage_Status
          Local_init_def)
qed

section \<open>When a status is posted after an update\<close>

text \<open>
  In every state that the pair of objects reaches from its construction,
  \<open>pending_status\<close> is set only while \<open>blocking\<close> is, and no timer is set while
  \<open>blocking\<close> is.
\<close>

lemma not_blocks_not_marks: "\<not> blocks msg \<Longrightarrow> \<not> marks_pending msg"
  by (cases msg) simp_all

lemma loop_gate:
  "in_remote s = q \<Longrightarrow> \<not> timer s \<Longrightarrow> (pending_status s \<longrightarrow> blocking s) \<Longrightarrow>
     \<not> timer (processMessages_loop s) \<and>
     (pending_status (processMessages_loop s) \<longrightarrow> blocking (processMessages_loop s))"
proof (induction q arbitrary: s)
  case Nil
  then show ?case by (simp add: loop_empty)
next
  case (Cons msg rest)
  show ?case
  proof (cases "blocks msg")
    case True
    with Cons.prems(1) show ?thesis by (simp add: loop_blocks)
  next
    case False
    let ?s1 = "(snd (processMessage msg s))\<lparr>in_remote := rest\<rparr>"
    have 1: "processMessages_loop s = processMessages_loop ?s1"
      using Cons.prems(1) False by (rule loop_continues)
    have "in_remote ?s1 = rest" by simp
    moreover have "\<not> timer ?s1" using Cons.prems(2) by (simp add: processMessage_fields)
    moreover have "pending_status ?s1 \<longrightarrow> blocking ?s1"
      using Cons.prems(3) False
      by (simp add: processMessage_fields processMessage_pending not_blocks_not_marks)
    ultimately show ?thesis
      unfolding 1 by (rule Cons.IH)
  qed
qed

lemma step_gate:
  "(pending_status (fst c) \<longrightarrow> blocking (fst c)) \<and> (blocking (fst c) \<longrightarrow> \<not> timer (fst c)) \<Longrightarrow>
   (pending_status (fst (step e c)) \<longrightarrow> blocking (fst (step e c))) \<and>
   (blocking (fst (step e c)) \<longrightarrow> \<not> timer (fst (step e c)))"
proof (cases c)
  case (Pair s l)
  assume inv: "(pending_status (fst c) \<longrightarrow> blocking (fst c)) \<and> (blocking (fst c) \<longrightarrow> \<not> timer (fst c))"
  show ?thesis
  proof (cases e)
    case Wake
    show ?thesis
    proof (cases "timer s")
      case True
      with inv Pair have "pending_status (s\<lparr>timer := False\<rparr>) \<longrightarrow> blocking (s\<lparr>timer := False\<rparr>)"
        by auto
      from loop_gate [OF refl _ this] Wake Pair True show ?thesis
        by (simp add: Remote_processMessages_def)
    next
      case False
      with inv Pair Wake show ?thesis by simp
    qed
  qed (use inv Pair in \<open>auto simp: Remote_postMessage_def worker_started_def worker_updated_def
        worker_stopped_def worker_finished_def worker_error_def resumeMessages_def Let_def\<close>)
qed

lemma run_gate:
  "(pending_status (fst c) \<longrightarrow> blocking (fst c)) \<and> (blocking (fst c) \<longrightarrow> \<not> timer (fst c)) \<Longrightarrow>
   (pending_status (fst (run evs c)) \<longrightarrow> blocking (fst (run evs c))) \<and>
   (blocking (fst (run evs c)) \<longrightarrow> \<not> timer (fst (run evs c)))"
proof (induction evs arbitrary: c)
  case Nil
  then show ?case by (simp add: run_def)
next
  case (Cons e evs)
  from Cons.IH [OF step_gate [OF Cons.prems, of e]] show ?case
    by (simp add: run_def)
qed

lemma reachable_gate:
  "(pending_status (fst (run evs (Remote_init w, Local_init))) \<longrightarrow>
      blocking (fst (run evs (Remote_init w, Local_init)))) \<and>
   (blocking (fst (run evs (Remote_init w, Local_init))) \<longrightarrow>
      \<not> timer (fst (run evs (Remote_init w, Local_init))))"
  by (rule run_gate) (simp add: Remote_init_def)

text \<open>
  C8, as the code has it. An UpdateDevices command posts no status: the drain itself
  never posts to the front side, and when the drain of a reachable state processes
  UpdateDevices and the worker then reports the update as done, the front side is as
  before. \<^verbatim>\<open>worker_updated\<close> posts a status exactly when \<open>pending_status\<close> is
  set, and leaves it cleared. \<open>pending_status\<close> is set by the commands Start, Stop
  and UpdateCodecs, and by no other.
\<close>

theorem status_on_updated_only_when_pending:
  "(timer (fst (run evs (Remote_init w, Local_init))) \<longrightarrow>
    in_remote (fst (run evs (Remote_init w, Local_init))) = UpdateDevices devices # rest \<longrightarrow>
      snd (run [Wake, WorkerRuns f, Updated] (run evs (Remote_init w, Local_init))) =
        snd (run evs (Remote_init w, Local_init))) \<and>
   snd (step Wake (s, l)) = l \<and>
   snd (worker_updated (s, l)) =
     (if pending_status s then Local_postMessage (Status (statusFromWorker (worker s))) l else l) \<and>
   in_local (Local_postMessage (Status st) l) = in_local l @ [Status st] \<and>
   \<not> pending_status (fst (worker_updated (s, l))) \<and>
   pending_status (snd (processMessage msg s)) = (pending_status s \<or> marks_pending msg)"
proof (intro conjI impI)
  let ?c = "run evs (Remote_init w, Local_init)"
  assume t: "timer (fst ?c)" and q: "in_remote (fst ?c) = UpdateDevices devices # rest"
  obtain s0 l0 where c: "?c = (s0, l0)" by (cases ?c)
  from reachable_gate [of evs w] t c have np: "\<not> pending_status s0" and nb: "\<not> blocking s0"
    by auto
  have "in_remote (s0\<lparr>timer := False\<rparr>) = UpdateDevices devices # rest"
    using q c by simp
  then have "processMessages_loop (s0\<lparr>timer := False\<rparr>) =
      (snd (processMessage (UpdateDevices devices) (s0\<lparr>timer := False\<rparr>)))
        \<lparr>in_remote := rest, blocking := True, timer := False\<rparr>"
    by (rule loop_blocks) simp
  moreover have "\<not> pending_status (snd (processMessage (UpdateDevices devices) (s0\<lparr>timer := False\<rparr>)))"
    using np by (simp only: processMessage_pending) simp
  ultimately have "\<not> pending_status (processMessages_loop (s0\<lparr>timer := False\<rparr>))"
    by simp
  with t c have "\<not> pending_status (fst (run [Wake] ?c))" and "snd (run [Wake] ?c) = l0"
    by (simp_all add: run_def Remote_processMessages_def)
  then have "snd (run [WorkerRuns f, Updated] (run [Wake] ?c)) = l0"
    by (cases "run [Wake] ?c") (simp add: run_def worker_updated_def)
  then have "snd (run ([Wake] @ [WorkerRuns f, Updated]) ?c) = l0"
    by (simp only: run_append)
  with c show "snd (run [Wake, WorkerRuns f, Updated] ?c) = snd ?c"
    by simp
next
  show "snd (step Wake (s, l)) = l" by simp
  show "snd (worker_updated (s, l)) =
     (if pending_status s then Local_postMessage (Status (statusFromWorker (worker s))) l else l)"
    by (simp add: worker_updated_def Let_def)
  show "in_local (Local_postMessage (Status st) l) = in_local l @ [Status st]"
    by (rule Local_postMessage_Status)
  show "pending_status (snd (processMessage msg s)) = (pending_status s \<or> marks_pending msg)"
    by (rule processMessage_pending)
  show "\<not> pending_status (fst (worker_updated (s, l)))"
    by (simp add: worker_updated_def resumeMessages_def Let_def)
qed

theorem status_on_updated_only_when_pending_witness:
  "snd (run [Wake, WorkerRuns (\<lambda>w. w), Updated]
     (run [Call (UpdateDevices example_devices)] (Remote_init example_worker, Local_init))) =
   Local_init"
proof -
  let ?c = "run [Call (UpdateDevices example_devices)] (Remote_init example_worker, Local_init)"
  have c: "?c = ((Remote_init example_worker)
      \<lparr>in_remote := [UpdateDevices example_devices], timer := True\<rparr>, Local_init)"
    by (simp add: run_def Remote_postMessage_def Remote_init_def)
  have t: "timer (fst ?c)" unfolding c by simp
  have q: "in_remote (fst ?c) = UpdateDevices example_devices # []" unfolding c by simp
  have l: "snd ?c = Local_init" unfolding c by simp
  from status_on_updated_only_when_pending
    [of "[Call (UpdateDevices example_devices)]" example_worker example_devices "[]" "\<lambda>w. w"] t q l
  show ?thesis by simp
qed

text \<open>
  C8 as stated fails where it says that only Start and UpdateCodecs mark a status
  pending: Stop does too. After \<^verbatim>\<open>stop\<close> on a new pair of objects and a drain, the
  worker's updated callback posts a status, with no Start or UpdateCodecs before it.
\<close>

theorem stop_marks_pending_counterexample:
  "in_local (snd (run [Call Stop, Wake, Updated] (Remote_init example_worker, Local_init))) =
     [Status (statusFromWorker example_worker)]"
proof -
  let ?s = "\<lparr>in_remote = [Stop], timer = False, blocking = False, pending_status = False,
            worker = example_worker, calls = []\<rparr>"
  have l: "processMessages_loop ?s =
      (snd (processMessage Stop ?s))\<lparr>in_remote := [], blocking := True, timer := False\<rparr>"
    by (rule loop_blocks) simp_all
  have r: "run [Call Stop, Wake, Updated] (Remote_init example_worker, Local_init) =
      worker_updated (processMessages_loop ?s, Local_init)"
    by (simp add: run_def Remote_postMessage_def Remote_init_def Remote_processMessages_def
          Let_def)
  show ?thesis
    unfolding r l
    by (simp add: worker_updated_def call_worker_def Let_def Local_postMessage_Status
          Local_init_def)
qed

section \<open>Stop right after start\<close>






end
